theory Spec2Isabelle
  imports Main
begin

section \<open>Python values and library functions used by convert_dataset.py\<close>

text \<open>
  Strings are lists of 8-bit characters (code points 0..255); Python's unbounded integers
  are \<open>int\<close>. Every exception the script can meet is a value of \<open>error\<close>.
  \<open>FileExistsError\<close> is kept apart because \<open>os.makedirs\<close> catches it by name; the other
  file-system failures (\<open>FileNotFoundError\<close>, \<open>NotADirectoryError\<close>, \<open>IsADirectoryError\<close>)
  are \<open>OSError\<close>, their common base class.
\<close>

datatype error =
  ValueError | TypeError | StopIteration | OSError | FileExistsError | EOFError
| ArgumentTypeError

subsection \<open>\<open>str(int)\<close> and the format \<open>{n:02d}\<close>\<close>

fun show_nat :: "nat \<Rightarrow> string" where
  "show_nat n =
     (if n < 10 then [''0123456789'' ! n]
      else show_nat (n div 10) @ [''0123456789'' ! (n mod 10)])"

declare show_nat.simps [simp del]

definition str_int :: "int \<Rightarrow> string" where
  "str_int i = (if i < 0 then CHR ''-'' # show_nat (nat (- i)) else show_nat (nat i))"

definition fmt02d :: "int \<Rightarrow> string" where
  "fmt02d i = (let s = str_int i in replicate (2 - length s) CHR ''0'' @ s)"

subsection \<open>\<open>str.strip\<close>, \<open>str.lower\<close>, \<open>str.split\<close>, \<open>str.endswith\<close> and \<open>int(str)\<close>\<close>

definition is_space :: "char \<Rightarrow> bool" where
  "is_space c \<longleftrightarrow> (of_char c :: nat) \<in> {9, 10, 11, 12, 13, 28, 29, 30, 31, 32, 133, 160}"

definition strip :: "string \<Rightarrow> string" where
  "strip s = rev (dropWhile is_space (rev (dropWhile is_space s)))"

definition lower_char :: "char \<Rightarrow> char" where
  "lower_char c =
     (let n = (of_char c :: nat)
      in if (65 \<le> n \<and> n \<le> 90) \<or> (192 \<le> n \<and> n \<le> 222 \<and> n \<noteq> 215) then char_of (n + 32) else c)"

definition lower :: "string \<Rightarrow> string" where
  "lower s = map lower_char s"

fun split_on :: "char \<Rightarrow> string \<Rightarrow> string list" where
  "split_on sep [] = [[]]"
| "split_on sep (c # cs) =
     (if c = sep then [] # split_on sep cs
      else (case split_on sep cs of [] \<Rightarrow> [[c]] | p # ps \<Rightarrow> (c # p) # ps))"

definition endswith :: "string \<Rightarrow> string \<Rightarrow> bool" where
  "endswith s suffix \<longleftrightarrow> length suffix \<le> length s \<and> drop (length s - length suffix) s = suffix"

definition is_digit :: "char \<Rightarrow> bool" where
  "is_digit c \<longleftrightarrow> c \<in> set ''0123456789''"

definition digit_val :: "char \<Rightarrow> nat" where
  "digit_val c = length (takeWhile (\<lambda>d. d \<noteq> c) ''0123456789'')"

text \<open>The decimal literals \<open>int\<close> accepts: digits, with single underscores between them.\<close>

fun digits_ok :: "string \<Rightarrow> bool" where
  "digits_ok [] = False"
| "digits_ok [c] = is_digit c"
| "digits_ok (c # d # cs) =
     (is_digit c \<and> (if d = CHR ''_'' then digits_ok cs else digits_ok (d # cs)))"

definition digits_value :: "string \<Rightarrow> nat" where
  "digits_value s = foldl (\<lambda>a c. 10 * a + digit_val c) 0 (filter (\<lambda>c. c \<noteq> CHR ''_'') s)"

definition py_int :: "string \<Rightarrow> int option" where
  "py_int s =
     (case strip s of
        [] \<Rightarrow> None
      | c # cs \<Rightarrow>
          if c = CHR ''-'' then (if digits_ok cs then Some (- int (digits_value cs)) else None)
          else if c = CHR ''+'' then (if digits_ok cs then Some (int (digits_value cs)) else None)
          else if digits_ok (c # cs) then Some (int (digits_value (c # cs)))
          else None)"

subsection \<open>\<open>calendar.monthrange\<close> and \<open>random.randint\<close>\<close>

definition mdays :: "int list" where
  "mdays = [0, 31, 28, 31, 30, 31, 30, 31, 31, 30, 31, 30, 31]"

definition isleap :: "int \<Rightarrow> bool" where
  "isleap year \<longleftrightarrow> year mod 4 = 0 \<and> (year mod 100 \<noteq> 0 \<or> year mod 400 = 0)"

text \<open>
  The second component of \<open>calendar.monthrange(year, month)\<close>; a month outside 1..12 raises
  \<open>IllegalMonthError\<close>, a \<open>ValueError\<close>. The year may be any integer: \<open>calendar.weekday\<close>
  (Python 3.8 and later) maps a year outside 1..9999 into that range before it builds a
  date, so the call does not fail on the year.
\<close>

definition monthrange_days :: "int \<Rightarrow> int \<Rightarrow> error + int" where
  "monthrange_days year month =
     (if \<not> (1 \<le> month \<and> month \<le> 12) then Inl ValueError
      else Inr (mdays ! nat month + (if month = 2 \<and> isleap year then 1 else 0)))"

text \<open>
  The process-wide generator is the sequence of raw draws still to come. \<open>randint a b\<close>
  raises \<open>ValueError\<close> on an empty range, before it draws; otherwise it consumes one raw
  draw and maps it into \<open>a..b\<close>.
\<close>

type_synonym rng = "nat \<Rightarrow> nat"

definition randint :: "int \<Rightarrow> int \<Rightarrow> rng \<Rightarrow> (error + int) \<times> rng" where
  "randint a b g =
     (if b < a then (Inl ValueError, g)
      else (Inr (a + int (g 0 mod nat (b - a + 1))), \<lambda>n. g (Suc n)))"

text \<open>\<open>random.randint(*r)\<close>: a tuple that is not a pair is a \<open>TypeError\<close>.\<close>

definition randint_star :: "int list \<Rightarrow> rng \<Rightarrow> (error + int) \<times> rng" where
  "randint_star r g = (case r of [a, b] \<Rightarrow> randint a b g | _ \<Rightarrow> (Inl TypeError, g))"

section \<open>The date functions\<close>

definition is_leap_year :: "int \<Rightarrow> bool" where
  "is_leap_year year \<longleftrightarrow> (year mod 4 = 0 \<and> year mod 100 \<noteq> 0) \<or> year mod 400 = 0"

text \<open>The string \<open>generate_random_date\<close> returns for a month and a day it has drawn.\<close>

definition date_text :: "int \<Rightarrow> int \<Rightarrow> int \<Rightarrow> string" where
  "date_text year month day = str_int year @ ''-'' @ fmt02d month @ ''-'' @ fmt02d day"

definition generate_random_date :: "int \<Rightarrow> rng \<Rightarrow> (error + string) \<times> rng" where
  "generate_random_date year g =
     (case randint 1 12 g of
        (Inl e, g1) \<Rightarrow> (Inl e, g1)
      | (Inr month, g1) \<Rightarrow>
          (case (if month = 2 then (if is_leap_year year then Inr 29 else Inr 28)
                 else monthrange_days year month) of
             Inl e \<Rightarrow> (Inl e, g1)
           | Inr max_day \<Rightarrow>
               (case randint 1 max_day g1 of
                  (Inl e, g2) \<Rightarrow> (Inl e, g2)
                | (Inr day, g2) \<Rightarrow> (Inr (date_text year month day), g2))))"

subsection \<open>The timestamp pattern and \<open>re.search\<close>\<close>

datatype atom = Digit | Lit char

definition time_atoms :: "atom list" where
  "time_atoms =
     [Digit, Digit, Lit CHR '':'', Digit, Digit, Lit CHR '':'', Digit, Digit, Lit CHR ''.'',
      Digit, Digit, Digit, Lit CHR ''+'', Digit, Digit, Digit, Digit]"

definition pattern :: "atom list" where
  "pattern =
     [Digit, Digit, Digit, Digit, Lit CHR ''-'', Digit, Digit, Lit CHR ''-'', Digit, Digit,
      Lit CHR ''T''] @ time_atoms"

fun atom_ok :: "atom \<Rightarrow> char \<Rightarrow> bool" where
  "atom_ok Digit c = is_digit c"
| "atom_ok (Lit l) c = (c = l)"

fun matches_prefix :: "atom list \<Rightarrow> string \<Rightarrow> bool" where
  "matches_prefix [] s = True"
| "matches_prefix (a # as) [] = False"
| "matches_prefix (a # as) (c # cs) = (atom_ok a c \<and> matches_prefix as cs)"

text \<open>A match object: the four groups of the pattern.\<close>

record rmatch =
  group1 :: string
  group2 :: string
  group3 :: string
  group4 :: string

definition match_at :: "string \<Rightarrow> rmatch option" where
  "match_at s =
     (if matches_prefix pattern s
      then Some \<lparr>group1 = take 4 s, group2 = take 2 (drop 5 s), group3 = take 2 (drop 8 s),
                 group4 = take 17 (drop 11 s)\<rparr>
      else None)"

text \<open>\<open>re.search\<close> tries every start position from the left and returns the first match.\<close>

fun re_search :: "string \<Rightarrow> rmatch option" where
  "re_search [] = match_at []"
| "re_search (c # cs) =
     (case match_at (c # cs) of Some m \<Rightarrow> Some m | None \<Rightarrow> re_search cs)"

subsection \<open>\<open>generate_dates\<close>\<close>

definition generate_dates ::
  "rmatch \<Rightarrow> int \<Rightarrow> int \<Rightarrow> int \<Rightarrow> rng \<Rightarrow> (error + string \<times> string \<times> string) \<times> rng" where
  "generate_dates m random_years random_valid_start_year random_valid_end_year g =
     (case py_int (group1 m) of
        None \<Rightarrow> (Inl ValueError, g)
      | Some creation_year \<Rightarrow>
          (let time_part = group4 m;
               deletion_year = creation_year + random_years;
               valid_start_year = creation_year + random_valid_start_year;
               valid_end_year = valid_start_year + random_valid_end_year
           in case generate_random_date deletion_year g of
                (Inl e, g1) \<Rightarrow> (Inl e, g1)
              | (Inr d1, g1) \<Rightarrow>
                  (case generate_random_date valid_start_year g1 of
                     (Inl e, g2) \<Rightarrow> (Inl e, g2)
                   | (Inr d2, g2) \<Rightarrow>
                       (case generate_random_date valid_end_year g2 of
                          (Inl e, g3) \<Rightarrow> (Inl e, g3)
                        | (Inr d3, g3) \<Rightarrow>
                            (Inr (str_int deletion_year @ ''-'' @ drop 5 d1 @ ''T'' @ time_part,
                                  str_int valid_start_year @ ''-'' @ drop 5 d2 @ ''T'' @ time_part,
                                  str_int valid_end_year @ ''-'' @ drop 5 d3 @ ''T'' @ time_part),
                             g3)))))"

section \<open>Rows\<close>

text \<open>
  The body of the \<open>for row in reader\<close> loop: \<open>None\<close> is the \<open>continue\<close> of a row that is
  too short to have the creation-date field, \<open>Some r\<close> the row handed to \<open>writer.writerow\<close>.
\<close>

definition process_row ::
  "nat \<Rightarrow> int list \<Rightarrow> int list \<Rightarrow> int list \<Rightarrow> string list \<Rightarrow> rng \<Rightarrow>
   (error + string list option) \<times> rng" where
  "process_row creation_date_index random_years_range random_valid_start_range
     random_valid_end_range row g =
     (if length row \<le> creation_date_index then (Inr None, g)
      else
        (case re_search (row ! creation_date_index) of
           None \<Rightarrow> (Inr (Some row), g)
         | Some m \<Rightarrow>
             (case randint_star random_years_range g of
                (Inl e, g1) \<Rightarrow> (Inl e, g1)
              | (Inr random_years, g1) \<Rightarrow>
                  (case randint_star random_valid_start_range g1 of
                     (Inl e, g2) \<Rightarrow> (Inl e, g2)
                   | (Inr random_valid_start_year, g2) \<Rightarrow>
                       (case randint_star random_valid_end_range g2 of
                          (Inl e, g3) \<Rightarrow> (Inl e, g3)
                        | (Inr random_valid_end_year, g3) \<Rightarrow>
                            (case generate_dates m random_years random_valid_start_year
                                    random_valid_end_year g3 of
                               (Inl e, g4) \<Rightarrow> (Inl e, g4)
                             | (Inr (deletion_date, valid_start, valid_end), g4) \<Rightarrow>
                                 (Inr (Some (row @ [deletion_date, valid_start, valid_end])),
                                  g4)))))))"

text \<open>
  The loop over the data rows: the rows written, in order, and the exception that ended the
  loop early, if one did.
\<close>

fun process_rows ::
  "nat \<Rightarrow> int list \<Rightarrow> int list \<Rightarrow> int list \<Rightarrow> string list list \<Rightarrow> rng \<Rightarrow>
   (string list list \<times> error option) \<times> rng" where
  "process_rows idx r1 r2 r3 [] g = (([], None), g)"
| "process_rows idx r1 r2 r3 (row # rows) g =
     (case process_row idx r1 r2 r3 row g of
        (Inl e, g1) \<Rightarrow> (([], Some e), g1)
      | (Inr out, g1) \<Rightarrow>
          (case process_rows idx r1 r2 r3 rows g1 of
             ((written, err), g2) \<Rightarrow>
               (((case out of None \<Rightarrow> [] | Some r \<Rightarrow> [r]) @ written, err), g2)))"

section \<open>Files, directories and the console\<close>

text \<open>
  A regular file is the list of rows \<open>csv.reader\<close> yields from it, and \<open>csv.writer\<close> writes
  to it. A directory is the list of names \<open>os.listdir\<close> reports. Files and directories are
  keyed by the canonical name of the object: \<open>resolve w p\<close> is the canonical name of what the
  path \<open>p\<close> names, as the operating system resolves it, so that two spellings of one path
  (\<open>in.csv\<close> and \<open>./in.csv\<close>) or two links to one file have one key. The empty path names
  nothing.

  A reader whose file is truncated and rewritten under it yields what its buffer and the
  rewritten file give, which is below the level of rows: \<open>reread w p rows\<close> stands for the
  rows a reader of \<open>p\<close> that has consumed the header still yields, of the data rows \<open>rows\<close>,
  once \<open>p\<close> was opened for writing, and for the exception that ends the reading, if one
  does.
\<close>

datatype output_line =
  Line string
| Prompt string
| Error_processing string error

record world =
  resolve :: "string \<Rightarrow> string"
  dirs :: "string \<rightharpoonup> string list"
  files :: "string \<rightharpoonup> string list list"
  reread :: "string \<Rightarrow> string list list \<Rightarrow> string list list \<times> error option"
  stdout :: "output_line list"
  stdin :: "string list"

definition print :: "string \<Rightarrow> world \<Rightarrow> world" where
  "print s w = w\<lparr>stdout := stdout w @ [Line s]\<rparr>"

text \<open>\<open>print(f"Error processing '{input_file}': {e}")\<close>; the text of \<open>e\<close> is the library's.\<close>

definition print_error :: "string \<Rightarrow> error \<Rightarrow> world \<Rightarrow> world" where
  "print_error input_file e w = w\<lparr>stdout := stdout w @ [Error_processing input_file e]\<rparr>"

definition input_line :: "string \<Rightarrow> world \<Rightarrow> (error + string) \<times> world" where
  "input_line prompt w =
     (case stdin w of
        [] \<Rightarrow> (Inl EOFError, w\<lparr>stdout := stdout w @ [Prompt prompt]\<rparr>)
      | l # ls \<Rightarrow> (Inr l, w\<lparr>stdout := stdout w @ [Prompt prompt], stdin := ls\<rparr>))"

definition quoted :: "string \<Rightarrow> string" where
  "quoted s = CHR 0x27 # s @ [CHR 0x27]"

subsection \<open>\<open>os.path\<close>\<close>

definition basename :: "string \<Rightarrow> string" where
  "basename p = rev (takeWhile (\<lambda>c. c \<noteq> CHR ''/'') (rev p))"

definition path_join :: "string \<Rightarrow> string \<Rightarrow> string" where
  "path_join a b =
     (if b \<noteq> [] \<and> hd b = CHR ''/'' then b
      else if a = [] \<or> last a = CHR ''/'' then a @ b
      else a @ ''/'' @ b)"

definition rstrip_slashes :: "string \<Rightarrow> string" where
  "rstrip_slashes p = rev (dropWhile (\<lambda>c. c = CHR ''/'') (rev p))"

text \<open>
  \<open>os.path.split\<close>: the tail is what follows the last slash; the head is the rest, without
  its trailing slashes unless it consists of slashes only.
\<close>

definition path_split :: "string \<Rightarrow> string \<times> string" where
  "path_split p =
     (let tail = basename p;
          head = take (length p - length tail) p
      in (if rstrip_slashes head = [] then head else rstrip_slashes head, tail))"

text \<open>
  The head and tail \<open>os.makedirs\<close> works with: a path that ends in a slash is split a second
  time. The tail is the last component of the path, the head names its parent.
\<close>

definition split_name :: "string \<Rightarrow> string \<times> string" where
  "split_name name =
     (if snd (path_split name) = [] then path_split (fst (path_split name))
      else path_split name)"

text \<open>The directory that holds the last component; for a bare name, the current directory.\<close>

definition parent_of :: "string \<Rightarrow> string" where
  "parent_of p = (if fst (split_name p) = [] then ''.'' else fst (split_name p))"

definition is_dir :: "string \<Rightarrow> world \<Rightarrow> bool" where
  "is_dir p w \<longleftrightarrow> p \<noteq> [] \<and> dirs w (resolve w p) \<noteq> None"

definition is_file :: "string \<Rightarrow> world \<Rightarrow> bool" where
  "is_file p w \<longleftrightarrow> p \<noteq> [] \<and> files w (resolve w p) \<noteq> None"

definition path_exists :: "string \<Rightarrow> world \<Rightarrow> bool" where
  "path_exists p w \<longleftrightarrow> is_dir p w \<or> is_file p w"

subsection \<open>\<open>os.mkdir\<close>, \<open>os.makedirs\<close>, \<open>os.listdir\<close> and \<open>open\<close>\<close>

text \<open>
  \<open>os.mkdir\<close>: \<open>FileExistsError\<close> when the path exists, another \<open>OSError\<close> when the path is
  empty or its parent is not a directory; otherwise the directory is created, empty, and
  entered in the listing of its parent. The world is returned with the error, if any.
\<close>

definition mkdir :: "string \<Rightarrow> world \<Rightarrow> error option \<times> world" where
  "mkdir name w =
     (if name = [] then (Some OSError, w)
      else if path_exists name w then (Some FileExistsError, w)
      else if \<not> is_dir (parent_of name) w then (Some OSError, w)
      else
        (None,
         w\<lparr>dirs :=
             ((dirs w)
                (resolve w (parent_of name) \<mapsto>
                   (case dirs w (resolve w (parent_of name)) of
                      None \<Rightarrow> []
                    | Some names \<Rightarrow> names) @ [snd (split_name name)]))
             (resolve w name \<mapsto> [])\<rparr>))"

text \<open>
  The last statement of \<open>os.makedirs\<close> with \<open>exist_ok=True\<close>: an \<open>OSError\<close> of \<open>mkdir\<close> is
  ignored when the path is a directory.
\<close>

definition mkdir_exist_ok :: "string \<Rightarrow> world \<Rightarrow> error option \<times> world" where
  "mkdir_exist_ok name w =
     (case mkdir name w of
        (None, w1) \<Rightarrow> (None, w1)
      | (Some e, w1) \<Rightarrow> (if is_dir name w1 then (None, w1) else (Some e, w1)))"

text \<open>
  \<open>os.makedirs(name, exist_ok=True)\<close>: when the head does not exist it is made first, by
  the same function; a \<open>FileExistsError\<close> of that call is passed over; a tail \<open>.\<close> ends the
  call there; then \<open>mkdir\<close> is called on the path itself.
\<close>

function makedirs :: "string \<Rightarrow> world \<Rightarrow> error option \<times> world" where
  "makedirs name w =
     (if fst (split_name name) \<noteq> [] \<and> snd (split_name name) \<noteq> [] \<and>
         \<not> path_exists (fst (split_name name)) w
      then
        (case makedirs (fst (split_name name)) w of
           (Some FileExistsError, w1) \<Rightarrow>
             (if snd (split_name name) = ''.'' then (None, w1) else mkdir_exist_ok name w1)
         | (Some e, w1) \<Rightarrow> (Some e, w1)
         | (None, w1) \<Rightarrow>
             (if snd (split_name name) = ''.'' then (None, w1) else mkdir_exist_ok name w1))
      else mkdir_exist_ok name w)"
  by pat_completeness auto

termination
proof (relation "measure (\<lambda>(name, w). length name)", goal_cases)
  case 1
  show ?case by simp
next
  case (2 name w)
  have le: "length (fst (path_split p)) \<le> length p - length (snd (path_split p))" for p
  proof -
    let ?h = "take (length p - length (basename p)) p"
    have r: "length (rstrip_slashes ?h) \<le> length ?h"
      using length_dropWhile_le [of "\<lambda>c. c = CHR ''/''" "rev ?h"]
      by (simp add: rstrip_slashes_def)
    have h: "length ?h \<le> length p - length (basename p)" by simp
    have "fst (path_split p) = ?h \<or> fst (path_split p) = rstrip_slashes ?h"
      by (simp add: path_split_def Let_def)
    moreover have "snd (path_split p) = basename p" by (simp add: path_split_def Let_def)
    ultimately show ?thesis using r h by (metis order.trans)
  qed
  have tl: "length (snd (path_split p)) \<le> length p" for p
    using length_takeWhile_le [of "\<lambda>c. c \<noteq> CHR ''/''" "rev p"]
    by (simp add: path_split_def basename_def Let_def)
  from 2 have a: "snd (split_name name) \<noteq> []" by simp
  have "length (fst (split_name name)) < length name"
  proof (cases "snd (path_split name) = []")
    case True
    then have s: "split_name name = path_split (fst (path_split name))"
      by (simp add: split_name_def)
    have "0 < length (snd (path_split (fst (path_split name))))" using a s by simp
    then have "length (fst (path_split (fst (path_split name)))) <
        length (fst (path_split name))"
      using le [of "fst (path_split name)"] tl [of "fst (path_split name)"] by linarith
    moreover have "length (fst (path_split name)) \<le> length name"
      using le [of name] by linarith
    ultimately show ?thesis using s by simp
  next
    case False
    then have s: "split_name name = path_split name" by (simp add: split_name_def)
    have "0 < length (snd (path_split name))" using False by simp
    then have "length (fst (path_split name)) < length name"
      using le [of name] tl [of name] by linarith
    then show ?thesis using s by simp
  qed
  then show ?case by simp
qed

declare makedirs.simps [simp del]

definition listdir :: "string \<Rightarrow> world \<Rightarrow> string list option" where
  "listdir p w = (if p = [] then None else dirs w (resolve w p))"

text \<open>\<open>open(p, "r")\<close> and the rows \<open>csv.reader\<close> yields; \<open>None\<close> when the open fails.\<close>

definition read_file :: "string \<Rightarrow> world \<Rightarrow> string list list option" where
  "read_file p w = (if p = [] then None else files w (resolve w p))"

text \<open>
  Whether \<open>open(p, "w")\<close> succeeds: the path has a last component and is not a directory, and
  its parent is a directory.
\<close>

definition can_write :: "string \<Rightarrow> world \<Rightarrow> bool" where
  "can_write p w \<longleftrightarrow> basename p \<noteq> [] \<and> \<not> is_dir p w \<and> is_dir (parent_of p) w"

text \<open>
  The file after the \<open>with open(p, "w")\<close> block is left: the rows written to it; a new
  file is entered in the listing of its parent.
\<close>

definition write_file :: "string \<Rightarrow> string list list \<Rightarrow> world \<Rightarrow> world" where
  "write_file p rows w =
     w\<lparr>files := (files w)(resolve w p \<mapsto> rows),
       dirs := (case dirs w (resolve w (parent_of p)) of
                  None \<Rightarrow> dirs w
                | Some names \<Rightarrow>
                    (dirs w)
                      (resolve w (parent_of p) \<mapsto>
                         (if basename p \<in> set names then names else names @ [basename p])))\<rparr>"

fun index_of :: "'a \<Rightarrow> 'a list \<Rightarrow> nat option" where
  "index_of x [] = None"
| "index_of x (y # ys) = (if y = x then Some 0 else map_option Suc (index_of x ys))"

section \<open>\<open>process_csv_file\<close> and \<open>process_directory\<close>\<close>

text \<open>
  The header is read before the output file is opened; the data rows are read after it.
  When the output path names the input file itself, the open truncates the file under the
  reader, and the data rows are those \<open>reread\<close> gives; an exception of the reader ends the
  loop as one of a row does.
\<close>

definition process_csv_file ::
  "string \<Rightarrow> string \<Rightarrow> int list \<Rightarrow> int list \<Rightarrow> int list \<Rightarrow> world \<times> rng \<Rightarrow> world \<times> rng" where
  "process_csv_file input_file output_directory random_years_range random_valid_start_range
     random_valid_end_range s =
     (case s of
        (w, g) \<Rightarrow>
          (let output_file = path_join output_directory (basename input_file)
           in case read_file input_file w of
                None \<Rightarrow> (print_error input_file OSError w, g)
              | Some [] \<Rightarrow> (print_error input_file StopIteration w, g)
              | Some (header # data) \<Rightarrow>
                  (case index_of ''creationDate'' header of
                     None \<Rightarrow>
                       (print (''Skipping '' @ quoted input_file @ '' (No '' @
                               quoted ''creationDate'' @ '' column found)'') w, g)
                   | Some creation_date_index \<Rightarrow>
                       if \<not> can_write output_file w
                       then (print_error input_file OSError w, g)
                       else
                         (case (if resolve w output_file = resolve w input_file
                                then reread w input_file data else (data, None)) of
                            (rows, read_error) \<Rightarrow>
                              (case process_rows creation_date_index random_years_range
                                      random_valid_start_range random_valid_end_range rows g of
                                 ((written, err), g1) \<Rightarrow>
                                   (let updated_header =
                                          header @
                                          [''deletionDate'', ''validStart'', ''validEnd''];
                                        w1 = write_file output_file (updated_header # written) w
                                    in case (case err of None \<Rightarrow> read_error
                                                       | Some e \<Rightarrow> Some e) of
                                         None \<Rightarrow>
                                           (print (''Processed: '' @ input_file @ '' -> '' @
                                                   output_file) w1, g1)
                                       | Some e \<Rightarrow> (print_error input_file e w1, g1)))))))"

text \<open>The \<open>for file in csv_files\<close> loop of \<open>process_directory\<close>.\<close>

fun process_files ::
  "string \<Rightarrow> string \<Rightarrow> int list \<Rightarrow> int list \<Rightarrow> int list \<Rightarrow> string list \<Rightarrow> world \<times> rng \<Rightarrow>
   world \<times> rng" where
  "process_files input_directory output_directory r1 r2 r3 [] s = s"
| "process_files input_directory output_directory r1 r2 r3 (f # csv_files) s =
     process_files input_directory output_directory r1 r2 r3 csv_files
       (process_csv_file (path_join input_directory f) output_directory r1 r2 r3 s)"

text \<open>An exception that leaves \<open>process_directory\<close> is its \<open>Some\<close> result.\<close>

definition process_directory ::
  "string \<Rightarrow> string \<Rightarrow> int list \<Rightarrow> int list \<Rightarrow> int list \<Rightarrow> world \<times> rng \<Rightarrow>
   error option \<times> world \<times> rng" where
  "process_directory input_directory output_directory r1 r2 r3 s =
     (case s of
        (w, g) \<Rightarrow>
          (case makedirs output_directory w of
             (Some e, w1) \<Rightarrow> (Some e, w1, g)
           | (None, w1) \<Rightarrow>
               (case listdir input_directory w1 of
                  None \<Rightarrow> (Some OSError, w1, g)
                | Some names \<Rightarrow>
                    (let csv_files = filter (\<lambda>f. endswith f ''.csv'') names
                     in if csv_files = []
                        then (None, print (''No CSV files found in directory: '' @
                                           input_directory) w1, g)
                        else
                          (None,
                           process_files input_directory output_directory r1 r2 r3 csv_files
                             (print (''Processing '' @ str_int (int (length csv_files)) @
                                     '' CSV files in '' @ quoted input_directory @ ''...'') w1,
                              g))))))"

section \<open>Ranges from the command line and from the prompts\<close>

text \<open>\<open>tuple(map(int, parts))\<close>: the first part \<open>int\<close> rejects raises \<open>ValueError\<close>.\<close>

fun map_int :: "string list \<Rightarrow> error + int list" where
  "map_int [] = Inr []"
| "map_int (p # ps) =
     (case py_int p of
        None \<Rightarrow> Inl ValueError
      | Some i \<Rightarrow> (case map_int ps of Inl e \<Rightarrow> Inl e | Inr t \<Rightarrow> Inr (i # t)))"

text \<open>
  \<open>parse_range\<close>: unpacking into \<open>min_val, max_val\<close> raises \<open>ValueError\<close> unless there are
  exactly two parts; every \<open>ValueError\<close> is turned into \<open>ArgumentTypeError\<close>.
\<close>

definition parse_range :: "string \<Rightarrow> error + int list" where
  "parse_range value =
     (case map_int (split_on CHR '','' value) of
        Inl e \<Rightarrow> Inl ArgumentTypeError
      | Inr [min_val, max_val] \<Rightarrow>
          if min_val > max_val then Inl ArgumentTypeError else Inr [min_val, max_val]
      | Inr _ \<Rightarrow> Inl ArgumentTypeError)"

text \<open>\<open>str\<close> of a tuple of integers, as \<open>print\<close> and the f-strings show it.\<close>

definition tuple_repr :: "int list \<Rightarrow> string" where
  "tuple_repr t =
     (case t of
        [] \<Rightarrow> ''()''
      | [a] \<Rightarrow> ''('' @ str_int a @ '',)''
      | a # rest \<Rightarrow> ''('' @ str_int a @ concat (map (\<lambda>i. '', '' @ str_int i) rest) @ '')'')"

definition get_range_input :: "string \<Rightarrow> int list \<Rightarrow> world \<Rightarrow> (error + int list) \<times> world" where
  "get_range_input prompt default_range w =
     (case input_line prompt w of
        (Inl e, w1) \<Rightarrow> (Inl e, w1)
      | (Inr l, w1) \<Rightarrow>
          (let user_input = strip l
           in if user_input = [] then (Inr default_range, w1)
              else
                (case map_int (split_on CHR '','' user_input) of
                   Inr t \<Rightarrow> (Inr t, w1)
                 | Inl ValueError \<Rightarrow>
                     (Inr default_range,
                      print (''Invalid input. Using default values: '' @
                             tuple_repr default_range) w1)
                 | Inl e \<Rightarrow> (Inl e, w1))))"

section \<open>\<open>main\<close>\<close>

definition DEFAULT_YEARS_RANGE :: "int list" where
  "DEFAULT_YEARS_RANGE = [5, 10]"

definition DEFAULT_VALID_START_RANGE :: "int list" where
  "DEFAULT_VALID_START_RANGE = [3, 5]"

definition DEFAULT_VALID_END_RANGE :: "int list" where
  "DEFAULT_VALID_END_RANGE = [2, 7]"

text \<open>
  How a call of \<open>main\<close> ends: it returns, it calls \<open>sys.exit\<close>, or an exception leaves it.
  The interpreter's exit status is 0, the argument of \<open>sys.exit\<close>, and 1.
\<close>

datatype outcome = Returned | Exit int | Raised error

fun exit_status :: "outcome \<Rightarrow> int" where
  "exit_status Returned = 0"
| "exit_status (Exit n) = n"
| "exit_status (Raised e) = 1"

definition choice_prompt :: string where
  "choice_prompt =
     ''1 - Process a directory'' @ [CHR 0x0A] @ ''2 - Process a single file'' @ [CHR 0x0A] @
     ''Enter your choice (1 or 2): ''"

definition custom_prompt :: string where
  "custom_prompt =
     ''Do you want to set custom random values? '' @ [CHR 0x0A] @ '' Default: dyr='' @
     tuple_repr DEFAULT_YEARS_RANGE @ '' vsr='' @ tuple_repr DEFAULT_VALID_START_RANGE @
     '' ver='' @ tuple_repr DEFAULT_VALID_END_RANGE @ [CHR 0x0A] @ ''(y/N):''"

text \<open>
  The part of the interactive block after the path was read: the check of the path and the
  optional prompts for the three ranges.
\<close>

definition main_ranges ::
  "string \<Rightarrow> bool \<Rightarrow> int list \<Rightarrow> int list \<Rightarrow> int list \<Rightarrow> world \<Rightarrow>
   (outcome + string \<times> bool \<times> int list \<times> int list \<times> int list) \<times> world" where
  "main_ranges input_path is_directory random_years_range random_valid_start_range
     random_valid_end_range w =
     (if input_path = [] then (Inl (Exit 1), print ''Error: No valid path provided. Exiting.'' w)
      else
        (case input_line custom_prompt w of
           (Inl e, w1) \<Rightarrow> (Inl (Raised e), w1)
         | (Inr l, w1) \<Rightarrow>
             (let custom_random = lower (strip l)
              in if custom_random = ''y''
                 then
                   (case get_range_input ''Enter random deletion years range <min,max>: ''
                           random_years_range w1 of
                      (Inl e, w2) \<Rightarrow> (Inl (Raised e), w2)
                    | (Inr r1, w2) \<Rightarrow>
                        (case get_range_input ''Enter random valid start range <min,max>: ''
                                random_valid_start_range w2 of
                           (Inl e, w3) \<Rightarrow> (Inl (Raised e), w3)
                         | (Inr r2, w3) \<Rightarrow>
                             (case get_range_input ''Enter random valid end range <min,max>: ''
                                     random_valid_end_range w3 of
                                (Inl e, w4) \<Rightarrow> (Inl (Raised e), w4)
                              | (Inr r3, w4) \<Rightarrow>
                                  (Inr (input_path, is_directory, r1, r2, r3), w4))))
                 else
                   (Inr (input_path, is_directory, random_years_range,
                         random_valid_start_range, random_valid_end_range), w1))))"

text \<open>The interactive block, entered when \<open>input_path\<close> is empty.\<close>

definition main_prompts ::
  "int list \<Rightarrow> int list \<Rightarrow> int list \<Rightarrow> world \<Rightarrow>
   (outcome + string \<times> bool \<times> int list \<times> int list \<times> int list) \<times> world" where
  "main_prompts random_years_range random_valid_start_range random_valid_end_range w =
     (case input_line choice_prompt (print ([CHR 0x0A] @ ''*** CSV Processing Script ***'') w) of
        (Inl e, w1) \<Rightarrow> (Inl (Raised e), w1)
      | (Inr l, w1) \<Rightarrow>
          (let choice = strip l
           in if choice = ''1''
              then
                (case input_line ''Enter the directory path containing CSV files: '' w1 of
                   (Inl e, w2) \<Rightarrow> (Inl (Raised e), w2)
                 | (Inr p, w2) \<Rightarrow>
                     main_ranges (strip p) True random_years_range random_valid_start_range
                       random_valid_end_range w2)
              else if choice = ''2''
              then
                (case input_line ''Enter the CSV file path: '' w1 of
                   (Inl e, w2) \<Rightarrow> (Inl (Raised e), w2)
                 | (Inr p, w2) \<Rightarrow>
                     main_ranges (strip p) False random_years_range random_valid_start_range
                       random_valid_end_range w2)
              else (Inl (Exit 1), print ''Invalid choice. Exiting.'' w1)))"

text \<open>The last statement of \<open>main\<close>: the directory or the single file is processed.\<close>

definition main_dispatch ::
  "string \<Rightarrow> string \<Rightarrow> bool \<Rightarrow> int list \<Rightarrow> int list \<Rightarrow> int list \<Rightarrow> world \<times> rng \<Rightarrow>
   outcome \<times> world \<times> rng" where
  "main_dispatch input_path output_directory is_directory r1 r2 r3 s =
     (if is_directory
      then
        (case process_directory input_path output_directory r1 r2 r3 s of
           (None, s1) \<Rightarrow> (Returned, s1)
         | (Some e, s1) \<Rightarrow> (Raised e, s1))
      else if path_exists input_path (fst s)
      then (Returned, process_csv_file input_path output_directory r1 r2 r3 s)
      else (Exit 1, print (''File not found: '' @ input_path) (fst s), snd s))"

text \<open>
  \<open>main\<close>, with \<open>sys.argv\<close> as its first argument. The empty \<open>input_path\<close> stands for both
  \<open>None\<close> and the empty string, which \<open>not input_path\<close> does not tell apart.
\<close>

definition main ::
  "string list \<Rightarrow> string \<Rightarrow> string \<Rightarrow> bool \<Rightarrow> int list \<Rightarrow> int list \<Rightarrow> int list \<Rightarrow>
   world \<times> rng \<Rightarrow> outcome \<times> world \<times> rng" where
  "main argv input_path output_directory is_directory random_years_range
     random_valid_start_range random_valid_end_range s =
     (case s of
        (w, g) \<Rightarrow>
          (case makedirs output_directory w of
             (Some e, w1) \<Rightarrow> (Raised e, w1, g)
           | (None, w1) \<Rightarrow>
               (let has_directory_arg = (''-d'' \<in> set argv \<or> ''--directory'' \<in> set argv);
                    has_file_arg = (''-f'' \<in> set argv \<or> ''--file'' \<in> set argv)
                in if has_directory_arg \<and> has_file_arg
                   then
                     (Exit 1,
                      print ''Error: -d/--directory and -f/--file cannot be used simultaneously.''
                        w1, g)
                   else
                     (case (if input_path = []
                            then main_prompts random_years_range random_valid_start_range
                                   random_valid_end_range w1
                            else (Inr (input_path, is_directory, random_years_range,
                                       random_valid_start_range, random_valid_end_range), w1)) of
                        (Inl out, w2) \<Rightarrow> (out, w2, g)
                      | (Inr (input_path, is_directory, r1, r2, r3), w2) \<Rightarrow>
                          main_dispatch input_path output_directory is_directory r1 r2 r3
                            (w2, g)))))"

section \<open>What the specification says, in its own words\<close>

text \<open>
  The Gregorian rule of the specification: divisible by 4 and not by 100, unless also
  divisible by 400; and the day count of each month.
\<close>

definition gregorian_leap :: "int \<Rightarrow> bool" where
  "gregorian_leap y \<longleftrightarrow> (4 dvd y \<and> \<not> 100 dvd y) \<or> 400 dvd y"

definition days_in_month :: "int \<Rightarrow> int \<Rightarrow> int" where
  "days_in_month y m =
     (if m = 2 then (if gregorian_leap y then 29 else 28)
      else if m \<in> {4, 6, 9, 11} then 30 else 31)"

text \<open>
  The year a timestamp's text begins with: an optional minus sign and the decimal digits
  that follow, up to the first character that is not a digit.
\<close>

definition year_of :: "string \<Rightarrow> int option" where
  "year_of ts =
     (case ts of
        [] \<Rightarrow> None
      | c # cs \<Rightarrow>
          if c = CHR ''-''
          then (if takeWhile is_digit cs = [] then None
                else Some (- int (digits_value (takeWhile is_digit cs))))
          else (if takeWhile is_digit ts = [] then None
                else Some (int (digits_value (takeWhile is_digit ts)))))"

text \<open>
  The shape \<open><year>-<2-digit month>-<2-digit day>T<suffix>\<close> of a timestamp for a given
  year and time suffix.
\<close>

definition well_formed :: "int \<Rightarrow> string \<Rightarrow> string \<Rightarrow> bool" where
  "well_formed year suffix ts \<longleftrightarrow>
     take (length (str_int year)) ts = str_int year \<and>
     matches_prefix
       [Lit CHR ''-'', Digit, Digit, Lit CHR ''-'', Digit, Digit, Lit CHR ''T'']
       (drop (length (str_int year)) ts) \<and>
     drop (length (str_int year) + 7) ts = suffix"

section \<open>Directories that persist\<close>

text \<open>
  A later state of the file system keeps the directories of an earlier one: paths resolve as
  before, and every directory of the earlier state is still a directory.
\<close>

definition keeps_dirs :: "world \<Rightarrow> world \<Rightarrow> bool" where
  "keeps_dirs w w1 \<longleftrightarrow> resolve w1 = resolve w \<and> dom (dirs w) \<subseteq> dom (dirs w1)"

section \<open>Example inputs\<close>

text \<open>
  In both examples every path is its own canonical name. The current directory holds a file
  with a header, a row whose creation date is not a timestamp, and a row with a single
  field; the output directory \<open>out\<close> exists.
\<close>

definition short_row_world :: world where
  "short_row_world =
     \<lparr>resolve = (\<lambda>p. p),
      dirs = [''.'' \<mapsto> [''in.csv'', ''out''], ''out'' \<mapsto> []],
      files = [''in.csv'' \<mapsto> [[''id'', ''creationDate''], [''U1'', ''n/a''], [''U2'']]],
      reread = (\<lambda>p rows. ([], None)),
      stdout = [], stdin = []\<rparr>"

text \<open>
  A directory with \<open>a.csv\<close>, which has a \<open>creationDate\<close> column, and \<open>b.csv\<close>, which has
  none; the output directory exists and is empty.
\<close>

definition two_files_world :: world where
  "two_files_world =
     \<lparr>resolve = (\<lambda>p. p),
      dirs = [''.'' \<mapsto> [''in'', ''out''], ''in'' \<mapsto> [''a.csv'', ''b.csv''], ''out'' \<mapsto> []],
      files = [''in/a.csv'' \<mapsto> [[''id'', ''creationDate''],
                                 [''U1'', ''2020-05-17T10:15:30.000+0000'']],
               ''in/b.csv'' \<mapsto> [[''id'', ''other''], [''1'', ''2'']]],
      reread = (\<lambda>p rows. ([], None)),
      stdout = [], stdin = []\<rparr>"

section \<open>Random draws and calendar dates\<close>

lemma randint_range:
  assumes "a \<le> b"
  shows "\<exists>v. randint a b g = (Inr v, \<lambda>n. g (Suc n)) \<and> a \<le> v \<and> v \<le> b"
proof -
  have "0 < nat (b - a + 1)" using assms by simp
  then have "g 0 mod nat (b - a + 1) < nat (b - a + 1)" by (rule mod_less_divisor)
  then have "int (g 0 mod nat (b - a + 1)) \<le> b - a" by linarith
  then show ?thesis using assms by (simp add: randint_def)
qed

lemma is_leap_year_gregorian: "is_leap_year y = gregorian_leap y"
  by (simp add: is_leap_year_def gregorian_leap_def dvd_eq_mod_eq_0)

lemma month_cases:
  assumes "1 \<le> (m::int)" "m \<le> 12"
  shows "m = 1 \<or> m = 2 \<or> m = 3 \<or> m = 4 \<or> m = 5 \<or> m = 6 \<or> m = 7 \<or> m = 8 \<or> m = 9 \<or>
    m = 10 \<or> m = 11 \<or> m = 12"
proof -
  have "m \<in> set [1..12]" using assms by simp
  then show ?thesis by (simp add: upto.simps)
qed

lemma max_day_gregorian:
  assumes "1 \<le> month" "month \<le> 12"
  shows "(if month = 2 then (if is_leap_year year then Inr 29 else Inr 28)
          else monthrange_days year month) = (Inr (days_in_month year month) :: error + int)"
  using month_cases [OF assms]
  by (elim disjE)
    (simp_all add: monthrange_days_def mdays_def days_in_month_def is_leap_year_gregorian)

lemma days_in_month_pos: "1 \<le> days_in_month y m"
  by (simp add: days_in_month_def)

lemma days_in_month_le: "days_in_month y m \<le> 31"
  by (simp add: days_in_month_def)

lemma generate_random_date_result:
  "\<exists>month day.
     generate_random_date year g = (Inr (date_text year month day), \<lambda>n. g (Suc (Suc n))) \<and>
     1 \<le> month \<and> month \<le> 12 \<and> 1 \<le> day \<and> day \<le> days_in_month year month"
proof -
  obtain month where m: "randint 1 12 g = (Inr month, \<lambda>n. g (Suc n))" "1 \<le> month" "month \<le> 12"
    using randint_range [of 1 12 g] by auto
  let ?g1 = "\<lambda>n. g (Suc n)"
  obtain day where d: "randint 1 (days_in_month year month) ?g1 = (Inr day, \<lambda>n. ?g1 (Suc n))"
      "1 \<le> day" "day \<le> days_in_month year month"
    using randint_range [OF days_in_month_pos, of year month ?g1] by auto
  have "generate_random_date year g = (Inr (date_text year month day), \<lambda>n. g (Suc (Suc n)))"
    unfolding generate_random_date_def
    by (simp add: m(1) max_day_gregorian [OF m(2,3)] d(1))
  then show ?thesis using m d by blast
qed

text \<open>
  C4. For every target year and every state of the generator, \<open>generate_random_date\<close>
  returns the text of a calendar-valid Gregorian date: the month lies in 1..12 and the day in
  1..the number of days of that month in that year, where February has 29 days exactly in
  the leap years of the Gregorian rule and 28 otherwise. February has 29 days in 2024 and
  28 in 2023. The call consumes two draws.
\<close>

theorem generate_random_date_valid:
  "(\<exists>month day.
      generate_random_date year g = (Inr (date_text year month day), \<lambda>n. g (Suc (Suc n))) \<and>
      1 \<le> month \<and> month \<le> 12 \<and> 1 \<le> day \<and> day \<le> days_in_month year month) \<and>
   days_in_month year 2 = (if gregorian_leap year then 29 else 28) \<and>
   days_in_month 2024 2 = 29 \<and> days_in_month 2023 2 = 28"
proof -
  have "days_in_month 2024 2 = 29" "days_in_month 2023 2 = 28"
    by (simp_all add: days_in_month_def gregorian_leap_def)
  moreover have "days_in_month year 2 = (if gregorian_leap year then 29 else 28)"
    by (simp add: days_in_month_def)
  ultimately show ?thesis using generate_random_date_result [of year g] by blast
qed

lemma generate_random_date_leap_february:
  "generate_random_date 2024 (\<lambda>n. if n = 0 then 1 else 28) = (Inr ''2024-02-29'', \<lambda>n. 28)"
  by (simp add: generate_random_date_def randint_def is_leap_year_def date_text_def str_int_def
        fmt02d_def show_nat.simps)

theorem generate_random_date_valid_witness:
  "(\<exists>month day.
      generate_random_date 2024 (\<lambda>n. if n = 0 then 1 else 28) =
        (Inr (date_text 2024 month day), \<lambda>n. 28) \<and>
      1 \<le> month \<and> month \<le> 12 \<and> 1 \<le> day \<and> day \<le> days_in_month 2024 month) \<and>
   generate_random_date 2024 (\<lambda>n. if n = 0 then 1 else 28) = (Inr ''2024-02-29'', \<lambda>n. 28)"
proof -
  have "(\<lambda>n. if Suc (Suc n) = 0 then 1 else 28) = (\<lambda>n. 28::nat)" by simp
  with generate_random_date_valid [of 2024 "\<lambda>n. if n = 0 then 1 else 28"]
    generate_random_date_leap_february
  show ?thesis by simp
qed

section \<open>Decimal text of integers\<close>

lemma nat_less_10_cases:
  assumes "n < (10::nat)"
  shows "n = 0 \<or> n = 1 \<or> n = 2 \<or> n = 3 \<or> n = 4 \<or> n = 5 \<or> n = 6 \<or> n = 7 \<or> n = 8 \<or> n = 9"
proof -
  have "n \<in> set [0..<10]" using assms by simp
  then show ?thesis by (auto simp: upt_rec)
qed

lemma digit_char_is_digit: "n < 10 \<Longrightarrow> is_digit (''0123456789'' ! n)"
  by (drule nat_less_10_cases) (auto simp: is_digit_def)

lemma digit_val_digit_char: "n < 10 \<Longrightarrow> digit_val (''0123456789'' ! n) = n"
  by (drule nat_less_10_cases) (auto simp: digit_val_def)

lemma digit_char_not_underscore: "n < 10 \<Longrightarrow> ''0123456789'' ! n \<noteq> CHR ''_''"
  by (drule nat_less_10_cases) auto

lemma is_digit_cases:
  "is_digit c \<Longrightarrow> c \<noteq> CHR ''-'' \<and> c \<noteq> CHR ''+'' \<and> c \<noteq> CHR ''_'' \<and> \<not> is_space c"
  by (auto simp: is_digit_def is_space_def)

lemma show_nat_digits: "list_all is_digit (show_nat n)"
proof (induction n rule: show_nat.induct)
  case (1 n)
  show ?case
  proof (cases "n < 10")
    case True
    then show ?thesis by (simp add: show_nat.simps [of n] digit_char_is_digit)
  next
    case False
    then show ?thesis using 1 by (simp add: show_nat.simps [of n] digit_char_is_digit)
  qed
qed

lemma show_nat_nonempty: "show_nat n \<noteq> []"
  by (simp add: show_nat.simps [of n])

lemma digits_value_snoc:
  "c \<noteq> CHR ''_'' \<Longrightarrow> digits_value (s @ [c]) = 10 * digits_value s + digit_val c"
  by (simp add: digits_value_def)

lemma digits_value_show_nat: "digits_value (show_nat n) = n"
proof (induction n rule: show_nat.induct)
  case (1 n)
  show ?case
  proof (cases "n < 10")
    case True
    then show ?thesis
      by (simp add: show_nat.simps [of n] digits_value_def digit_val_digit_char
            digit_char_not_underscore)
  next
    case False
    have "''0123456789'' ! (n mod 10) \<noteq> CHR ''_''"
      by (rule digit_char_not_underscore) simp
    then show ?thesis using False 1
      by (simp add: show_nat.simps [of n] digits_value_snoc digit_val_digit_char)
  qed
qed

lemma takeWhile_digits:
  assumes "list_all is_digit ds" "\<not> is_digit c"
  shows "takeWhile is_digit (ds @ c # rest) = ds"
  using assms by (induction ds) simp_all

lemma not_digit_minus: "\<not> is_digit CHR ''-''"
  by (simp add: is_digit_def)

lemma year_of_str_int: "year_of (str_int y @ ''-'' @ rest) = Some y"
proof (cases "y < 0")
  case True
  have "takeWhile is_digit (show_nat (nat (- y)) @ CHR ''-'' # rest) = show_nat (nat (- y))"
    by (rule takeWhile_digits [OF show_nat_digits not_digit_minus])
  then show ?thesis using True
    by (simp add: year_of_def str_int_def show_nat_nonempty digits_value_show_nat)
next
  case False
  obtain c cs where s: "show_nat (nat y) = c # cs"
    using show_nat_nonempty [of "nat y"] by (cases "show_nat (nat y)") auto
  have "is_digit c" using show_nat_digits [of "nat y"] s by simp
  then have c: "c \<noteq> CHR ''-''" using is_digit_cases by blast
  have t: "takeWhile is_digit (show_nat (nat y) @ CHR ''-'' # rest) = show_nat (nat y)"
    by (rule takeWhile_digits [OF show_nat_digits not_digit_minus])
  have "year_of ((c # cs) @ CHR ''-'' # rest) = Some (int (digits_value (c # cs)))"
    using c t s by (simp add: year_of_def)
  then show ?thesis using False s digits_value_show_nat [of "nat y"]
    by (simp add: str_int_def)
qed

section \<open>Matching the timestamp pattern\<close>

lemma matches_prefix_Cons:
  "matches_prefix (a # as) s \<longleftrightarrow> (\<exists>c cs. s = c # cs \<and> atom_ok a c \<and> matches_prefix as cs)"
  by (cases s) simp_all

lemma strip_digits:
  assumes "is_digit a" "is_digit d"
  shows "strip (a # bs @ [d]) = a # bs @ [d]"
  using assms is_digit_cases [of a] is_digit_cases [of d] by (simp add: strip_def)

lemma py_int_four_digits:
  assumes "is_digit a" "is_digit b" "is_digit c" "is_digit d"
  shows "py_int [a, b, c, d] = Some (int (digits_value [a, b, c, d]))"
proof -
  have "strip [a, b, c, d] = [a, b, c, d]"
    using strip_digits [OF assms(1,4), of "[b, c]"] by simp
  then show ?thesis
    using assms is_digit_cases [of a] is_digit_cases [of b] is_digit_cases [of c]
      is_digit_cases [of d]
    by (simp add: py_int_def)
qed

lemma match_at_groups:
  assumes "match_at s = Some m"
  shows "matches_prefix pattern s \<and> group1 m = take 4 s \<and> group4 m = take 17 (drop 11 s) \<and>
         length (group4 m) = 17 \<and> (\<exists>cy. py_int (group1 m) = Some cy)"
proof -
  from assms have p: "matches_prefix pattern s" and
    m: "m = \<lparr>group1 = take 4 s, group2 = take 2 (drop 5 s), group3 = take 2 (drop 8 s),
             group4 = take 17 (drop 11 s)\<rparr>"
    by (auto simp: match_at_def split: if_splits)
  from p obtain a b c d rest where s: "s = a # b # c # d # rest"
    and dg: "is_digit a" "is_digit b" "is_digit c" "is_digit d"
    and r: "matches_prefix (drop 4 pattern) rest"
    by (auto simp: pattern_def matches_prefix_Cons)
  from r have "28 \<le> length s" unfolding s
    by (auto simp: pattern_def time_atoms_def matches_prefix_Cons)
  then have "length (group4 m) = 17" by (simp add: m)
  moreover have "\<exists>cy. py_int (group1 m) = Some cy"
    using py_int_four_digits [OF dg] by (simp add: m s)
  ultimately show ?thesis using p m by simp
qed

lemma re_search_first:
  "re_search s = Some m \<Longrightarrow>
   \<exists>k\<le>length s. match_at (drop k s) = Some m \<and> (\<forall>j<k. match_at (drop j s) = None)"
proof (induction s)
  case Nil
  then show ?case by simp
next
  case (Cons c cs)
  show ?case
  proof (cases "match_at (c # cs)")
    case (Some m')
    with Cons.prems have "match_at (drop 0 (c # cs)) = Some m" by simp
    then show ?thesis by blast
  next
    case None
    with Cons.prems have "re_search cs = Some m" by simp
    from Cons.IH [OF this] obtain k where k: "k \<le> length cs" "match_at (drop k cs) = Some m"
      "\<forall>j<k. match_at (drop j cs) = None" by blast
    have "\<forall>j<Suc k. match_at (drop j (c # cs)) = None"
    proof (intro allI impI)
      fix j assume "j < Suc k"
      then show "match_at (drop j (c # cs)) = None"
        using None k(3) by (cases j) simp_all
    qed
    moreover have "match_at (drop (Suc k) (c # cs)) = Some m" using k(2) by simp
    moreover have "Suc k \<le> length (c # cs)" using k(1) by simp
    ultimately show ?thesis by blast
  qed
qed

lemma re_search_finds:
  "match_at (drop k s) \<noteq> None \<Longrightarrow> k \<le> length s \<Longrightarrow> re_search s \<noteq> None"
proof (induction s arbitrary: k)
  case Nil
  then show ?case by simp
next
  case (Cons c cs)
  show ?case
  proof (cases k)
    case 0
    with Cons.prems show ?thesis by auto
  next
    case (Suc k')
    with Cons.prems have "re_search cs \<noteq> None" using Cons.IH [of k'] by simp
    then show ?thesis by (simp split: option.splits)
  qed
qed

section \<open>Rows that match\<close>

lemma randint_star_pair:
  assumes "a \<le> b"
  shows "randint_star [a, b] g = (Inr (a + int (g 0 mod nat (b - a + 1))), \<lambda>n. g (Suc n)) \<and>
         a \<le> a + int (g 0 mod nat (b - a + 1)) \<and> a + int (g 0 mod nat (b - a + 1)) \<le> b"
proof -
  have "0 < nat (b - a + 1)" using assms by simp
  then have "g 0 mod nat (b - a + 1) < nat (b - a + 1)" by (rule mod_less_divisor)
  then have "int (g 0 mod nat (b - a + 1)) \<le> b - a" by linarith
  then show ?thesis using assms by (simp add: randint_star_def randint_def)
qed

lemma generate_dates_result:
  assumes "py_int (group1 m) = Some cy"
  shows "\<exists>m1 d1 m2 d2 m3 d3.
     generate_dates m o1 o2 o3 g =
       (Inr (str_int (cy + o1) @ ''-'' @ drop 5 (date_text (cy + o1) m1 d1) @ ''T'' @ group4 m,
             str_int (cy + o2) @ ''-'' @ drop 5 (date_text (cy + o2) m2 d2) @ ''T'' @ group4 m,
             str_int (cy + o2 + o3) @ ''-'' @ drop 5 (date_text (cy + o2 + o3) m3 d3) @ ''T'' @
               group4 m),
        \<lambda>n. g (n + 6)) \<and>
     1 \<le> m1 \<and> m1 \<le> 12 \<and> 1 \<le> d1 \<and> d1 \<le> days_in_month (cy + o1) m1 \<and>
     1 \<le> m2 \<and> m2 \<le> 12 \<and> 1 \<le> d2 \<and> d2 \<le> days_in_month (cy + o2) m2 \<and>
     1 \<le> m3 \<and> m3 \<le> 12 \<and> 1 \<le> d3 \<and> d3 \<le> days_in_month (cy + o2 + o3) m3"
proof -
  let ?g2 = "\<lambda>n. g (Suc (Suc n))"
  let ?g4 = "\<lambda>n. ?g2 (Suc (Suc n))"
  obtain m1 d1 where a:
    "generate_random_date (cy + o1) g = (Inr (date_text (cy + o1) m1 d1), ?g2)"
    "1 \<le> m1" "m1 \<le> 12" "1 \<le> d1" "d1 \<le> days_in_month (cy + o1) m1"
    using generate_random_date_result [of "cy + o1" g] by blast
  obtain m2 d2 where b:
    "generate_random_date (cy + o2) ?g2 = (Inr (date_text (cy + o2) m2 d2), ?g4)"
    "1 \<le> m2" "m2 \<le> 12" "1 \<le> d2" "d2 \<le> days_in_month (cy + o2) m2"
    using generate_random_date_result [of "cy + o2" ?g2] by blast
  obtain m3 d3 where c:
    "generate_random_date (cy + o2 + o3) ?g4 =
       (Inr (date_text (cy + o2 + o3) m3 d3), \<lambda>n. ?g4 (Suc (Suc n)))"
    "1 \<le> m3" "m3 \<le> 12" "1 \<le> d3" "d3 \<le> days_in_month (cy + o2 + o3) m3"
    using generate_random_date_result [of "cy + o2 + o3" ?g4] by blast
  have six: "\<And>n::nat. Suc (Suc (Suc (Suc (Suc (Suc n))))) = n + 6" by simp
  have "generate_dates m o1 o2 o3 g =
       (Inr (str_int (cy + o1) @ ''-'' @ drop 5 (date_text (cy + o1) m1 d1) @ ''T'' @ group4 m,
             str_int (cy + o2) @ ''-'' @ drop 5 (date_text (cy + o2) m2 d2) @ ''T'' @ group4 m,
             str_int (cy + o2 + o3) @ ''-'' @ drop 5 (date_text (cy + o2 + o3) m3 d3) @ ''T'' @
               group4 m),
        \<lambda>n. g (n + 6))"
    unfolding generate_dates_def by (simp add: assms a(1) b(1) c(1) Let_def six)
  then show ?thesis using a(2-) b(2-) c(2-) by blast
qed

lemma process_row_match:
  assumes "idx < length row" "re_search (row ! idx) = Some m" "py_int (group1 m) = Some cy"
    "a1 \<le> b1" "a2 \<le> b2" "a3 \<le> b3"
    "o1 = a1 + int (g 0 mod nat (b1 - a1 + 1))"
    "o2 = a2 + int (g 1 mod nat (b2 - a2 + 1))"
    "o3 = a3 + int (g 2 mod nat (b3 - a3 + 1))"
  shows "\<exists>m1 d1 m2 d2 m3 d3.
     process_row idx [a1, b1] [a2, b2] [a3, b3] row g =
       (Inr (Some (row @
          [str_int (cy + o1) @ ''-'' @ drop 5 (date_text (cy + o1) m1 d1) @ ''T'' @ group4 m,
           str_int (cy + o2) @ ''-'' @ drop 5 (date_text (cy + o2) m2 d2) @ ''T'' @ group4 m,
           str_int (cy + o2 + o3) @ ''-'' @ drop 5 (date_text (cy + o2 + o3) m3 d3) @ ''T'' @
             group4 m])),
        \<lambda>n. g (n + 9)) \<and>
     generate_dates m o1 o2 o3 (\<lambda>n. g (n + 3)) =
       (Inr (str_int (cy + o1) @ ''-'' @ drop 5 (date_text (cy + o1) m1 d1) @ ''T'' @ group4 m,
             str_int (cy + o2) @ ''-'' @ drop 5 (date_text (cy + o2) m2 d2) @ ''T'' @ group4 m,
             str_int (cy + o2 + o3) @ ''-'' @ drop 5 (date_text (cy + o2 + o3) m3 d3) @ ''T'' @
               group4 m),
        \<lambda>n. g (n + 9)) \<and>
     a1 \<le> o1 \<and> o1 \<le> b1 \<and> a2 \<le> o2 \<and> o2 \<le> b2 \<and> a3 \<le> o3 \<and> o3 \<le> b3 \<and>
     1 \<le> m1 \<and> m1 \<le> 12 \<and> 1 \<le> d1 \<and> d1 \<le> days_in_month (cy + o1) m1 \<and>
     1 \<le> m2 \<and> m2 \<le> 12 \<and> 1 \<le> d2 \<and> d2 \<le> days_in_month (cy + o2) m2 \<and>
     1 \<le> m3 \<and> m3 \<le> 12 \<and> 1 \<le> d3 \<and> d3 \<le> days_in_month (cy + o2 + o3) m3"
proof -
  let ?g1 = "\<lambda>n. g (Suc n)"
  let ?g2 = "\<lambda>n. ?g1 (Suc n)"
  let ?g3 = "\<lambda>n. ?g2 (Suc n)"
  have r1: "randint_star [a1, b1] g = (Inr o1, ?g1)" "a1 \<le> o1" "o1 \<le> b1"
    using randint_star_pair [OF assms(4), of g] assms(7) by simp_all
  have r2: "randint_star [a2, b2] ?g1 = (Inr o2, ?g2)" "a2 \<le> o2" "o2 \<le> b2"
    using randint_star_pair [OF assms(5), of ?g1] assms(8) by simp_all
  have r3: "randint_star [a3, b3] ?g2 = (Inr o3, ?g3)" "a3 \<le> o3" "o3 \<le> b3"
    using randint_star_pair [OF assms(6), of ?g2] assms(9) by (simp_all add: numeral_2_eq_2)
  obtain m1 d1 m2 d2 m3 d3 where gd:
    "generate_dates m o1 o2 o3 ?g3 =
       (Inr (str_int (cy + o1) @ ''-'' @ drop 5 (date_text (cy + o1) m1 d1) @ ''T'' @ group4 m,
             str_int (cy + o2) @ ''-'' @ drop 5 (date_text (cy + o2) m2 d2) @ ''T'' @ group4 m,
             str_int (cy + o2 + o3) @ ''-'' @ drop 5 (date_text (cy + o2 + o3) m3 d3) @ ''T'' @
               group4 m),
        \<lambda>n. ?g3 (n + 6))"
    and md: "1 \<le> m1" "m1 \<le> 12" "1 \<le> d1" "d1 \<le> days_in_month (cy + o1) m1"
      "1 \<le> m2" "m2 \<le> 12" "1 \<le> d2" "d2 \<le> days_in_month (cy + o2) m2"
      "1 \<le> m3" "m3 \<le> 12" "1 \<le> d3" "d3 \<le> days_in_month (cy + o2 + o3) m3"
    using generate_dates_result [OF assms(3), of o1 o2 o3 ?g3] by blast
  have "process_row idx [a1, b1] [a2, b2] [a3, b3] row g =
       (Inr (Some (row @
          [str_int (cy + o1) @ ''-'' @ drop 5 (date_text (cy + o1) m1 d1) @ ''T'' @ group4 m,
           str_int (cy + o2) @ ''-'' @ drop 5 (date_text (cy + o2) m2 d2) @ ''T'' @ group4 m,
           str_int (cy + o2 + o3) @ ''-'' @ drop 5 (date_text (cy + o2 + o3) m3 d3) @ ''T'' @
             group4 m])),
        \<lambda>n. g (n + 9))"
    unfolding process_row_def using assms(1)
    by (simp add: assms(2) r1(1) r2(1) r3(1) gd add.commute)
  moreover have "generate_dates m o1 o2 o3 (\<lambda>n. g (n + 3)) =
       (Inr (str_int (cy + o1) @ ''-'' @ drop 5 (date_text (cy + o1) m1 d1) @ ''T'' @ group4 m,
             str_int (cy + o2) @ ''-'' @ drop 5 (date_text (cy + o2) m2 d2) @ ''T'' @ group4 m,
             str_int (cy + o2 + o3) @ ''-'' @ drop 5 (date_text (cy + o2 + o3) m3 d3) @ ''T'' @
               group4 m),
        \<lambda>n. g (n + 9))"
  proof -
    have "(\<lambda>n. g (Suc (Suc (Suc n)))) = (\<lambda>n. g (n + 3))"
      by (simp add: eval_nat_numeral)
    moreover have "(\<lambda>n. g (Suc (Suc (Suc (n + 6))))) = (\<lambda>n. g (n + 9))"
      by (simp add: eval_nat_numeral)
    ultimately show ?thesis using gd by simp
  qed
  ultimately show ?thesis using r1(2,3) r2(2,3) r3(2,3) md by blast
qed

lemma endswith_time:
  "endswith (pre @ ''T'' @ t) (CHR ''T'' # t)"
  by (simp add: endswith_def)


lemma example_search:
  "re_search ([''U1'', ''2020-05-17T10:15:30.000+0000''] ! 1) =
     Some \<lparr>group1 = ''2020'', group2 = ''05'', group3 = ''17'',
           group4 = ''10:15:30.000+0000''\<rparr>"
  by (simp add: match_at_def pattern_def time_atoms_def is_digit_def)


text \<open>
  C2. For every row whose creation-date field matches the pattern (and ranges with
  \<open>min \<le> max\<close>), the row written is the input row followed by exactly three fields, the
  deletion date, the valid start and the valid end that \<open>generate_dates\<close> returns, in that
  order; the original fields are unchanged and in place. Each of the three timestamps ends
  in \<open>T\<close> followed by the 17 characters of time and offset captured from the row's creation
  timestamp.
\<close>

theorem matched_row_extended:
  assumes "creation_date_index < length row"
    and "re_search (row ! creation_date_index) = Some m"
    and "a1 \<le> b1" and "a2 \<le> b2" and "a3 \<le> b3"
  shows "\<exists>deletion_date valid_start valid_end o1 o2 o3 k.
     process_row creation_date_index [a1, b1] [a2, b2] [a3, b3] row g =
       (Inr (Some (row @ [deletion_date, valid_start, valid_end])), \<lambda>n. g (n + 9)) \<and>
     generate_dates m o1 o2 o3 (\<lambda>n. g (n + 3)) =
       (Inr (deletion_date, valid_start, valid_end), \<lambda>n. g (n + 9)) \<and>
     length (row @ [deletion_date, valid_start, valid_end]) = length row + 3 \<and>
     take (length row) (row @ [deletion_date, valid_start, valid_end]) = row \<and>
     k \<le> length (row ! creation_date_index) \<and>
     group4 m = take 17 (drop (k + 11) (row ! creation_date_index)) \<and>
     length (group4 m) = 17 \<and>
     endswith deletion_date (CHR ''T'' # group4 m) \<and>
     endswith valid_start (CHR ''T'' # group4 m) \<and>
     endswith valid_end (CHR ''T'' # group4 m)"
proof -
  obtain k where k: "k \<le> length (row ! creation_date_index)"
    "match_at (drop k (row ! creation_date_index)) = Some m"
    using re_search_first [OF assms(2)] by blast
  from match_at_groups [OF k(2)] obtain cy where cy: "py_int (group1 m) = Some cy"
    and g4: "group4 m = take 17 (drop 11 (drop k (row ! creation_date_index)))"
    and len: "length (group4 m) = 17"
    by blast
  have g4': "group4 m = take 17 (drop (k + 11) (row ! creation_date_index))"
    using g4 by (simp add: add.commute)
  define o1 where "o1 = a1 + int (g 0 mod nat (b1 - a1 + 1))"
  define o2 where "o2 = a2 + int (g 1 mod nat (b2 - a2 + 1))"
  define o3 where "o3 = a3 + int (g 2 mod nat (b3 - a3 + 1))"
  obtain m1 d1 m2 d2 m3 d3 where
    pr: "process_row creation_date_index [a1, b1] [a2, b2] [a3, b3] row g =
       (Inr (Some (row @
          [str_int (cy + o1) @ ''-'' @ drop 5 (date_text (cy + o1) m1 d1) @ ''T'' @ group4 m,
           str_int (cy + o2) @ ''-'' @ drop 5 (date_text (cy + o2) m2 d2) @ ''T'' @ group4 m,
           str_int (cy + o2 + o3) @ ''-'' @ drop 5 (date_text (cy + o2 + o3) m3 d3) @ ''T'' @
             group4 m])),
        \<lambda>n. g (n + 9))"
    and gd: "generate_dates m o1 o2 o3 (\<lambda>n. g (n + 3)) =
       (Inr (str_int (cy + o1) @ ''-'' @ drop 5 (date_text (cy + o1) m1 d1) @ ''T'' @ group4 m,
             str_int (cy + o2) @ ''-'' @ drop 5 (date_text (cy + o2) m2 d2) @ ''T'' @ group4 m,
             str_int (cy + o2 + o3) @ ''-'' @ drop 5 (date_text (cy + o2 + o3) m3 d3) @ ''T'' @
               group4 m),
        \<lambda>n. g (n + 9))"
    using process_row_match [OF assms(1,2) cy assms(3-5) o1_def o2_def o3_def] by blast
  define dd where
    "dd = str_int (cy + o1) @ ''-'' @ drop 5 (date_text (cy + o1) m1 d1) @ ''T'' @ group4 m"
  define vs where
    "vs = str_int (cy + o2) @ ''-'' @ drop 5 (date_text (cy + o2) m2 d2) @ ''T'' @ group4 m"
  define ve where
    "ve = str_int (cy + o2 + o3) @ ''-'' @ drop 5 (date_text (cy + o2 + o3) m3 d3) @ ''T'' @
          group4 m"
  have pr': "process_row creation_date_index [a1, b1] [a2, b2] [a3, b3] row g =
       (Inr (Some (row @ [dd, vs, ve])), \<lambda>n. g (n + 9))"
    using pr unfolding dd_def vs_def ve_def .
  have gd': "generate_dates m o1 o2 o3 (\<lambda>n. g (n + 3)) = (Inr (dd, vs, ve), \<lambda>n. g (n + 9))"
    using gd unfolding dd_def vs_def ve_def .
  have e: "endswith dd (CHR ''T'' # group4 m)" "endswith vs (CHR ''T'' # group4 m)"
    "endswith ve (CHR ''T'' # group4 m)"
    unfolding dd_def vs_def ve_def
    using endswith_time [of "str_int (cy + o1) @ ''-'' @ drop 5 (date_text (cy + o1) m1 d1)"]
      endswith_time [of "str_int (cy + o2) @ ''-'' @ drop 5 (date_text (cy + o2) m2 d2)"]
      endswith_time
        [of "str_int (cy + o2 + o3) @ ''-'' @ drop 5 (date_text (cy + o2 + o3) m3 d3)"]
    by simp_all
  have l: "length (row @ [dd, vs, ve]) = length row + 3"
    "take (length row) (row @ [dd, vs, ve]) = row"
    by simp_all
  show ?thesis
    using pr' gd' l k(1) g4' len e by blast
qed

theorem matched_row_extended_witness:
  "\<exists>deletion_date valid_start valid_end o1 o2 o3 k.
     process_row 1 [5, 10] [3, 5] [2, 7] [''U1'', ''2020-05-17T10:15:30.000+0000'']
         (\<lambda>n. 7 * n + 4) =
       (Inr (Some [''U1'', ''2020-05-17T10:15:30.000+0000'', deletion_date, valid_start,
                   valid_end]),
        \<lambda>n. 7 * (n + 9) + 4) \<and>
     generate_dates
         \<lparr>group1 = ''2020'', group2 = ''05'', group3 = ''17'',
            group4 = ''10:15:30.000+0000''\<rparr> o1 o2 o3 (\<lambda>n. 7 * (n + 3) + 4) =
       (Inr (deletion_date, valid_start, valid_end), \<lambda>n. 7 * (n + 9) + 4) \<and>
     k \<le> length ''2020-05-17T10:15:30.000+0000'' \<and>
     ''10:15:30.000+0000'' = take 17 (drop (k + 11) ''2020-05-17T10:15:30.000+0000'') \<and>
     endswith deletion_date ''T10:15:30.000+0000'' \<and>
     endswith valid_start ''T10:15:30.000+0000'' \<and>
     endswith valid_end ''T10:15:30.000+0000''"
  using matched_row_extended [of 1 "[''U1'', ''2020-05-17T10:15:30.000+0000'']"
      "\<lparr>group1 = ''2020'', group2 = ''05'', group3 = ''17'', group4 = ''10:15:30.000+0000''\<rparr>"
      5 10 3 5 2 7 "\<lambda>n. 7 * n + 4", OF _ example_search]
  by simp

lemma match_at_None: "match_at s = None \<longleftrightarrow> \<not> matches_prefix pattern s"
  by (simp add: match_at_def)

lemma re_search_leftmost:
  assumes "matches_prefix pattern (drop k s)" "k \<le> length s"
  shows "\<exists>j m. j \<le> k \<and> re_search s = Some m \<and> match_at (drop j s) = Some m \<and>
           (\<forall>i<j. \<not> matches_prefix pattern (drop i s))"
proof -
  have "match_at (drop k s) \<noteq> None" using assms(1) by (simp add: match_at_None)
  then have "re_search s \<noteq> None" using assms(2) by (rule re_search_finds)
  then obtain m where m: "re_search s = Some m" by blast
  from re_search_first [OF m] obtain j where j: "match_at (drop j s) = Some m"
    "\<forall>i<j. match_at (drop i s) = None" by blast
  have "j \<le> k"
  proof (rule ccontr)
    assume "\<not> j \<le> k"
    then have "match_at (drop k s) = None" using j(2) by simp
    then show False using assms(1) by (simp add: match_at_None)
  qed
  moreover have "\<forall>i<j. \<not> matches_prefix pattern (drop i s)"
    using j(2) by (simp add: match_at_None)
  ultimately show ?thesis using m j(1) by blast
qed

text \<open>
  C8. The per-row test is a search, not a full-field match: when the pattern occurs anywhere
  in the creation-date field (after any prefix \<open>pre\<close>, and followed by anything), the row
  gains the three derived columns (ranges with \<open>min \<le> max\<close>), and the creation year and the
  time suffix used for them are those of the leftmost position \<open>k\<close> of the field at which the
  pattern matches.
\<close>

theorem search_is_substring_match:
  assumes "creation_date_index < length row"
    and "row ! creation_date_index = pre @ occ"
    and "matches_prefix pattern occ"
    and "a1 \<le> b1" and "a2 \<le> b2" and "a3 \<le> b3"
  shows "\<exists>k cy deletion_date valid_start valid_end.
     k \<le> length pre \<and>
     matches_prefix pattern (drop k (row ! creation_date_index)) \<and>
     (\<forall>j<k. \<not> matches_prefix pattern (drop j (row ! creation_date_index))) \<and>
     py_int (take 4 (drop k (row ! creation_date_index))) = Some cy \<and>
     process_row creation_date_index [a1, b1] [a2, b2] [a3, b3] row g =
       (Inr (Some (row @ [deletion_date, valid_start, valid_end])), \<lambda>n. g (n + 9)) \<and>
     year_of deletion_date = Some (cy + (a1 + int (g 0 mod nat (b1 - a1 + 1)))) \<and>
     year_of valid_start = Some (cy + (a2 + int (g 1 mod nat (b2 - a2 + 1)))) \<and>
     endswith deletion_date
       (CHR ''T'' # take 17 (drop (k + 11) (row ! creation_date_index))) \<and>
     endswith valid_start
       (CHR ''T'' # take 17 (drop (k + 11) (row ! creation_date_index))) \<and>
     endswith valid_end
       (CHR ''T'' # take 17 (drop (k + 11) (row ! creation_date_index)))"
proof -
  let ?f = "row ! creation_date_index"
  have "matches_prefix pattern (drop (length pre) ?f)" "length pre \<le> length ?f"
    using assms(2,3) by simp_all
  from re_search_leftmost [OF this] obtain k m where k: "k \<le> length pre"
    and s: "re_search ?f = Some m" and ma: "match_at (drop k ?f) = Some m"
    and first: "\<forall>i<k. \<not> matches_prefix pattern (drop i ?f)"
    by blast
  from match_at_groups [OF ma] obtain cy where mp: "matches_prefix pattern (drop k ?f)"
    and g1: "group1 m = take 4 (drop k ?f)" and cy: "py_int (group1 m) = Some cy"
    and g4: "group4 m = take 17 (drop 11 (drop k ?f))"
    by blast
  have g4': "group4 m = take 17 (drop (k + 11) ?f)" using g4 by (simp add: add.commute)
  define o1 where "o1 = a1 + int (g 0 mod nat (b1 - a1 + 1))"
  define o2 where "o2 = a2 + int (g 1 mod nat (b2 - a2 + 1))"
  define o3 where "o3 = a3 + int (g 2 mod nat (b3 - a3 + 1))"
  obtain m1 d1 m2 d2 m3 d3 where
    pr: "process_row creation_date_index [a1, b1] [a2, b2] [a3, b3] row g =
       (Inr (Some (row @
          [str_int (cy + o1) @ ''-'' @ drop 5 (date_text (cy + o1) m1 d1) @ ''T'' @ group4 m,
           str_int (cy + o2) @ ''-'' @ drop 5 (date_text (cy + o2) m2 d2) @ ''T'' @ group4 m,
           str_int (cy + o2 + o3) @ ''-'' @ drop 5 (date_text (cy + o2 + o3) m3 d3) @ ''T'' @
             group4 m])),
        \<lambda>n. g (n + 9))"
    using process_row_match [OF assms(1) s cy assms(4-6) o1_def o2_def o3_def] by blast
  define dd where
    "dd = str_int (cy + o1) @ ''-'' @ drop 5 (date_text (cy + o1) m1 d1) @ ''T'' @ group4 m"
  define vs where
    "vs = str_int (cy + o2) @ ''-'' @ drop 5 (date_text (cy + o2) m2 d2) @ ''T'' @ group4 m"
  define ve where
    "ve = str_int (cy + o2 + o3) @ ''-'' @ drop 5 (date_text (cy + o2 + o3) m3 d3) @ ''T'' @
          group4 m"
  have pr': "process_row creation_date_index [a1, b1] [a2, b2] [a3, b3] row g =
       (Inr (Some (row @ [dd, vs, ve])), \<lambda>n. g (n + 9))"
    using pr unfolding dd_def vs_def ve_def .
  have y: "year_of dd = Some (cy + o1)" "year_of vs = Some (cy + o2)"
    unfolding dd_def vs_def by (rule year_of_str_int)+
  have e: "endswith dd (CHR ''T'' # group4 m)" "endswith vs (CHR ''T'' # group4 m)"
    "endswith ve (CHR ''T'' # group4 m)"
    unfolding dd_def vs_def ve_def
    using endswith_time [of "str_int (cy + o1) @ ''-'' @ drop 5 (date_text (cy + o1) m1 d1)"]
      endswith_time [of "str_int (cy + o2) @ ''-'' @ drop 5 (date_text (cy + o2) m2 d2)"]
      endswith_time
        [of "str_int (cy + o2 + o3) @ ''-'' @ drop 5 (date_text (cy + o2 + o3) m3 d3)"]
    by simp_all
  have cy': "py_int (take 4 (drop k ?f)) = Some cy" using cy g1 by simp
  show ?thesis
    using k mp first cy' pr' y e unfolding g4' o1_def o2_def by blast
qed

theorem search_is_substring_match_witness:
  "\<exists>k cy deletion_date valid_start valid_end.
     k \<le> length ''xx'' \<and>
     matches_prefix pattern
       (drop k ''xx2001-02-03T10:15:30.000+0000yy1999-01-01T00:00:00.000+0100'') \<and>
     (\<forall>j<k. \<not> matches_prefix pattern
        (drop j ''xx2001-02-03T10:15:30.000+0000yy1999-01-01T00:00:00.000+0100'')) \<and>
     py_int (take 4 (drop k ''xx2001-02-03T10:15:30.000+0000yy1999-01-01T00:00:00.000+0100'')) =
       Some cy \<and>
     process_row 1 [5, 5] [3, 3] [2, 2]
         [''U3'', ''xx2001-02-03T10:15:30.000+0000yy1999-01-01T00:00:00.000+0100'']
         (\<lambda>n. 0) =
       (Inr (Some [''U3'', ''xx2001-02-03T10:15:30.000+0000yy1999-01-01T00:00:00.000+0100'',
                   deletion_date, valid_start, valid_end]),
        \<lambda>n. 0) \<and>
     year_of deletion_date = Some (cy + 5) \<and>
     year_of valid_start = Some (cy + 3) \<and>
     endswith deletion_date
       (CHR ''T'' # take 17
          (drop (k + 11) ''xx2001-02-03T10:15:30.000+0000yy1999-01-01T00:00:00.000+0100'')) \<and>
     endswith valid_start
       (CHR ''T'' # take 17
          (drop (k + 11) ''xx2001-02-03T10:15:30.000+0000yy1999-01-01T00:00:00.000+0100'')) \<and>
     endswith valid_end
       (CHR ''T'' # take 17
          (drop (k + 11) ''xx2001-02-03T10:15:30.000+0000yy1999-01-01T00:00:00.000+0100''))"
proof -
  have occ: "matches_prefix pattern
      ''2001-02-03T10:15:30.000+0000yy1999-01-01T00:00:00.000+0100''"
    by (simp add: pattern_def time_atoms_def is_digit_def)
  have f: "[''U3'', ''xx2001-02-03T10:15:30.000+0000yy1999-01-01T00:00:00.000+0100''] ! 1 =
      ''xx'' @ ''2001-02-03T10:15:30.000+0000yy1999-01-01T00:00:00.000+0100''"
    by simp
  show ?thesis
    using search_is_substring_match [of 1
        "[''U3'', ''xx2001-02-03T10:15:30.000+0000yy1999-01-01T00:00:00.000+0100'']" "''xx''"
        "''2001-02-03T10:15:30.000+0000yy1999-01-01T00:00:00.000+0100''" 5 5 3 3 2 2
        "\<lambda>n. 0", OF _ f occ]
    by simp
qed

section \<open>The shape of the derived timestamps\<close>

lemma length_show_nat_rec:
  "length (show_nat n) = (if n < 10 then 1 else Suc (length (show_nat (n div 10))))"
  by (subst show_nat.simps) simp

lemma length_show_nat_le: "length (show_nat n) \<le> Suc k \<longleftrightarrow> n < 10 ^ Suc k"
proof (induction k arbitrary: n)
  case 0
  have "0 < length (show_nat (n div 10))" using show_nat_nonempty by simp
  then show ?case by (subst length_show_nat_rec) auto
next
  case (Suc k)
  show ?case
  proof (cases "n < 10")
    case True
    have "(10::nat) \<le> 10 ^ Suc (Suc k)" by simp
    then have "n < 10 ^ Suc (Suc k)" using True by linarith
    then show ?thesis using True by (subst length_show_nat_rec) simp
  next
    case False
    have "length (show_nat n) \<le> Suc (Suc k) \<longleftrightarrow> length (show_nat (n div 10)) \<le> Suc k"
      using False by (subst length_show_nat_rec) simp
    also have "\<dots> \<longleftrightarrow> n div 10 < 10 ^ Suc k" by (rule Suc.IH)
    also have "\<dots> \<longleftrightarrow> n < 10 ^ Suc (Suc k)"
      by (simp add: div_less_iff_less_mult mult.commute)
    finally show ?thesis .
  qed
qed

lemma length_show_nat_4: "length (show_nat n) = 4 \<longleftrightarrow> 1000 \<le> n \<and> n < 10000"
proof -
  have a: "length (show_nat n) \<le> Suc 3 \<longleftrightarrow> n < 10 ^ Suc 3" by (rule length_show_nat_le)
  have b: "length (show_nat n) \<le> Suc 2 \<longleftrightarrow> n < 10 ^ Suc 2" by (rule length_show_nat_le)
  from a b show ?thesis by simp linarith
qed

lemma length_show_nat_3: "length (show_nat n) = 3 \<longleftrightarrow> 100 \<le> n \<and> n < 1000"
proof -
  have a: "length (show_nat n) \<le> Suc 2 \<longleftrightarrow> n < 10 ^ Suc 2" by (rule length_show_nat_le)
  have b: "length (show_nat n) \<le> Suc 1 \<longleftrightarrow> n < 10 ^ Suc 1" by (rule length_show_nat_le)
  from a b show ?thesis by simp linarith
qed

lemma length_str_int_4:
  "length (str_int y) = 4 \<longleftrightarrow> (1000 \<le> y \<and> y \<le> 9999) \<or> (- 999 \<le> y \<and> y \<le> - 100)"
proof (cases "y < 0")
  case True
  then have "length (str_int y) = 4 \<longleftrightarrow> length (show_nat (nat (- y))) = 3"
    by (simp add: str_int_def)
  then show ?thesis using True by (simp add: length_show_nat_3) linarith
next
  case False
  then show ?thesis by (simp add: str_int_def length_show_nat_4) linarith
qed

lemma fmt02d_shape:
  assumes "1 \<le> v" "v \<le> 31"
  shows "\<exists>a b. fmt02d v = [a, b] \<and> is_digit a \<and> is_digit b"
proof (cases "v < 10")
  case True
  then have nv: "nat v < 10" by simp
  then have "show_nat (nat v) = [''0123456789'' ! nat v]" by (subst show_nat.simps) simp
  moreover have "is_digit (''0123456789'' ! nat v)"
    using nv by (rule digit_char_is_digit)
  moreover have "is_digit CHR ''0''" by (simp add: is_digit_def)
  ultimately show ?thesis using assms by (simp add: fmt02d_def str_int_def)
next
  case False
  then have lt: "nat v div 10 < 10" and nv: "\<not> nat v < 10" using assms by simp_all
  have "show_nat (nat v) = show_nat (nat v div 10) @ [''0123456789'' ! (nat v mod 10)]"
    using nv by (subst show_nat.simps) simp
  also have "show_nat (nat v div 10) = [''0123456789'' ! (nat v div 10)]"
    using lt by (subst show_nat.simps) simp
  finally have "show_nat (nat v) =
      [''0123456789'' ! (nat v div 10), ''0123456789'' ! (nat v mod 10)]" by simp
  moreover have "is_digit (''0123456789'' ! (nat v div 10))"
    using lt by (rule digit_char_is_digit)
  moreover have "is_digit (''0123456789'' ! (nat v mod 10))"
    by (rule digit_char_is_digit) simp
  ultimately show ?thesis using assms by (simp add: fmt02d_def str_int_def)
qed

lemma matches_prefix_length: "matches_prefix as s \<Longrightarrow> length as \<le> length s"
  by (induction as s rule: matches_prefix.induct) simp_all

lemma well_formed_composed:
  assumes "is_digit a" "is_digit b" "is_digit c" "is_digit d"
  shows "well_formed y t (str_int y @ ''-'' @ drop 5 (str_int y @ ''-'' @ [a, b] @ ''-'' @ [c, d]) @
           ''T'' @ t) \<longleftrightarrow> length (str_int y) = 4"
proof
  assume l: "length (str_int y) = 4"
  then show "well_formed y t (str_int y @ ''-'' @ drop 5 (str_int y @ ''-'' @ [a, b] @ ''-'' @ [c, d]) @
           ''T'' @ t)"
    using assms by (simp add: well_formed_def)
next
  let ?n = "length (str_int y)"
  let ?ts = "str_int y @ ''-'' @ drop 5 (str_int y @ ''-'' @ [a, b] @ ''-'' @ [c, d]) @ ''T'' @ t"
  assume w: "well_formed y t ?ts"
  have len: "length ?ts = ?n + 1 + (?n + 6 - 5) + 1 + length t" by simp
  from w have "matches_prefix
       [Lit CHR ''-'', Digit, Digit, Lit CHR ''-'', Digit, Digit, Lit CHR ''T''] (drop ?n ?ts)"
    and dr: "drop (?n + 7) ?ts = t"
    by (simp_all add: well_formed_def)
  from matches_prefix_length [OF this(1)] have ge: "?n + 7 \<le> length ?ts" by simp
  from dr have "length (drop (?n + 7) ?ts) = length t" by simp
  then have "length ?ts - (?n + 7) = length t" by (simp only: length_drop)
  with ge len show "?n = 4" by linarith
qed

lemma date_text_shape:
  assumes "1 \<le> mo" "mo \<le> 12" "1 \<le> da" "da \<le> days_in_month y mo"
  shows "\<exists>a b c d. date_text y mo da = str_int y @ ''-'' @ [a, b] @ ''-'' @ [c, d] \<and>
           is_digit a \<and> is_digit b \<and> is_digit c \<and> is_digit d"
proof -
  have "mo \<le> 31" using assms(2) by simp
  from fmt02d_shape [OF assms(1) this] obtain a b where
    m: "fmt02d mo = [a, b]" "is_digit a" "is_digit b" by blast
  have "da \<le> 31" using assms(4) days_in_month_le [of y mo] by linarith
  from fmt02d_shape [OF assms(3) this] obtain c d where
    d: "fmt02d da = [c, d]" "is_digit c" "is_digit d" by blast
  show ?thesis using m d by (simp add: date_text_def)
qed

lemma composed_well_formed_iff:
  assumes "1 \<le> mo" "mo \<le> 12" "1 \<le> da" "da \<le> days_in_month y mo"
  shows "well_formed y t (str_int y @ ''-'' @ drop 5 (date_text y mo da) @ ''T'' @ t) \<longleftrightarrow>
         (1000 \<le> y \<and> y \<le> 9999) \<or> (- 999 \<le> y \<and> y \<le> - 100)"
proof -
  from date_text_shape [OF assms] obtain a b c d where
    "date_text y mo da = str_int y @ ''-'' @ [a, b] @ ''-'' @ [c, d]"
    "is_digit a" "is_digit b" "is_digit c" "is_digit d" by blast
  then show ?thesis
    using well_formed_composed [of a b c d y t] length_str_int_4 [of y] by simp
qed

text \<open>
  C9 (amended). \<open>generate_dates\<close> composes each derived timestamp from the text of its
  target year and the random date string without its first five characters. For every match
  of the pattern, a derived timestamp has the shape \<open><year>-<2-digit month>-<2-digit
  day>T<suffix>\<close> for its target year and the captured suffix if and only if the decimal text
  of the target year has exactly four characters, that is, the target year lies in
  1000..9999 or in -999..-100. So for target years from 0 to 9999 the timestamp is well
  formed exactly from 1000 on, and for the target years 0..999 it is malformed.
\<close>

theorem derived_timestamp_shape:
  assumes "re_search field = Some m"
  shows "\<exists>cy deletion_date valid_start valid_end.
     py_int (group1 m) = Some cy \<and>
     generate_dates m random_years random_valid_start_year random_valid_end_year g =
       (Inr (deletion_date, valid_start, valid_end), \<lambda>n. g (n + 6)) \<and>
     (well_formed (cy + random_years) (group4 m) deletion_date \<longleftrightarrow>
        (1000 \<le> cy + random_years \<and> cy + random_years \<le> 9999) \<or>
        (- 999 \<le> cy + random_years \<and> cy + random_years \<le> - 100)) \<and>
     (well_formed (cy + random_valid_start_year) (group4 m) valid_start \<longleftrightarrow>
        (1000 \<le> cy + random_valid_start_year \<and> cy + random_valid_start_year \<le> 9999) \<or>
        (- 999 \<le> cy + random_valid_start_year \<and> cy + random_valid_start_year \<le> - 100)) \<and>
     (well_formed (cy + random_valid_start_year + random_valid_end_year) (group4 m)
          valid_end \<longleftrightarrow>
        (1000 \<le> cy + random_valid_start_year + random_valid_end_year \<and>
         cy + random_valid_start_year + random_valid_end_year \<le> 9999) \<or>
        (- 999 \<le> cy + random_valid_start_year + random_valid_end_year \<and>
         cy + random_valid_start_year + random_valid_end_year \<le> - 100))"
proof -
  obtain k where "match_at (drop k field) = Some m"
    using re_search_first [OF assms] by blast
  then obtain cy where cy: "py_int (group1 m) = Some cy"
    using match_at_groups by blast
  let ?y1 = "cy + random_years"
  let ?y2 = "cy + random_valid_start_year"
  let ?y3 = "cy + random_valid_start_year + random_valid_end_year"
  obtain m1 d1 m2 d2 m3 d3 where
    gd: "generate_dates m random_years random_valid_start_year random_valid_end_year g =
       (Inr (str_int ?y1 @ ''-'' @ drop 5 (date_text ?y1 m1 d1) @ ''T'' @ group4 m,
             str_int ?y2 @ ''-'' @ drop 5 (date_text ?y2 m2 d2) @ ''T'' @ group4 m,
             str_int ?y3 @ ''-'' @ drop 5 (date_text ?y3 m3 d3) @ ''T'' @ group4 m),
        \<lambda>n. g (n + 6))"
    and md1: "1 \<le> m1" "m1 \<le> 12" "1 \<le> d1" "d1 \<le> days_in_month ?y1 m1"
    and md2: "1 \<le> m2" "m2 \<le> 12" "1 \<le> d2" "d2 \<le> days_in_month ?y2 m2"
    and md3: "1 \<le> m3" "m3 \<le> 12" "1 \<le> d3" "d3 \<le> days_in_month ?y3 m3"
    using generate_dates_result [OF cy, of random_years random_valid_start_year
        random_valid_end_year g]
    by blast
  show ?thesis
    using cy gd composed_well_formed_iff [OF md1, of "group4 m"]
      composed_well_formed_iff [OF md2, of "group4 m"]
      composed_well_formed_iff [OF md3, of "group4 m"]
    by blast
qed

lemma negative_year_row:
  "process_row 1 [- 100, - 100] [3, 3] [2, 2] [''U1'', ''0000-05-17T10:15:30.000+0000'']
       (\<lambda>n. 1) =
     (Inr (Some [''U1'', ''0000-05-17T10:15:30.000+0000'', ''-100-02-02T10:15:30.000+0000'',
                 ''3-02T10:15:30.000+0000'', ''5-02T10:15:30.000+0000'']),
      \<lambda>n. 1)"
  by (simp add: process_row_def match_at_def pattern_def time_atoms_def is_digit_def
      randint_star_def randint_def generate_dates_def py_int_def strip_def is_space_def
      digits_value_def digit_val_def generate_random_date_def is_leap_year_def monthrange_days_def
      mdays_def isleap_def date_text_def str_int_def fmt02d_def show_nat.simps Let_def)

lemma negative_year_well_formed:
  "well_formed (- 100) ''10:15:30.000+0000'' ''-100-02-02T10:15:30.000+0000''"
  by (simp add: well_formed_def str_int_def show_nat.simps is_digit_def)

theorem derived_timestamp_shape_counterexample:
  "process_row 1 [- 100, - 100] [3, 3] [2, 2] [''U1'', ''0000-05-17T10:15:30.000+0000'']
       (\<lambda>n. 1) =
     (Inr (Some [''U1'', ''0000-05-17T10:15:30.000+0000'', ''-100-02-02T10:15:30.000+0000'',
                 ''3-02T10:15:30.000+0000'', ''5-02T10:15:30.000+0000'']),
      \<lambda>n. 1) \<and>
   py_int ''0000'' = Some 0 \<and>
   well_formed (0 + - 100) ''10:15:30.000+0000'' ''-100-02-02T10:15:30.000+0000'' \<and>
   \<not> (1000 \<le> (0 + - 100 :: int))"
proof -
  have "py_int ''0000'' = Some 0"
    by (simp add: py_int_def strip_def is_space_def is_digit_def digits_value_def digit_val_def)
  then show ?thesis using negative_year_row negative_year_well_formed by simp
qed

lemma zero_search:
  "re_search ''0000-05-17T10:15:30.000+0000'' =
     Some \<lparr>group1 = ''0000'', group2 = ''05'', group3 = ''17'',
           group4 = ''10:15:30.000+0000''\<rparr>"
  by (simp add: match_at_def pattern_def time_atoms_def is_digit_def)

theorem derived_timestamp_shape_witness:
  "\<exists>cy deletion_date valid_start valid_end.
     py_int ''0000'' = Some cy \<and>
     generate_dates
         \<lparr>group1 = ''0000'', group2 = ''05'', group3 = ''17'',
            group4 = ''10:15:30.000+0000''\<rparr> 2025 999 1 (\<lambda>n. 4) =
       (Inr (deletion_date, valid_start, valid_end), \<lambda>n. 4) \<and>
     (well_formed (cy + 2025) ''10:15:30.000+0000'' deletion_date \<longleftrightarrow>
        (1000 \<le> cy + 2025 \<and> cy + 2025 \<le> 9999) \<or> (- 999 \<le> cy + 2025 \<and> cy + 2025 \<le> - 100)) \<and>
     (well_formed (cy + 999) ''10:15:30.000+0000'' valid_start \<longleftrightarrow>
        (1000 \<le> cy + 999 \<and> cy + 999 \<le> 9999) \<or> (- 999 \<le> cy + 999 \<and> cy + 999 \<le> - 100)) \<and>
     (well_formed (cy + 999 + 1) ''10:15:30.000+0000'' valid_end \<longleftrightarrow>
        (1000 \<le> cy + 999 + 1 \<and> cy + 999 + 1 \<le> 9999) \<or>
        (- 999 \<le> cy + 999 + 1 \<and> cy + 999 + 1 \<le> - 100))"
  using derived_timestamp_shape [OF zero_search, of 2025 999 1 "\<lambda>n. 4"]
  by simp

section \<open>Rows that do not match, and the rows of the output file\<close>

lemma process_row_short:
  "length row \<le> idx \<Longrightarrow> process_row idx r1 r2 r3 row g = (Inr None, g)"
  by (simp add: process_row_def)

lemma process_row_no_match:
  "idx < length row \<Longrightarrow> re_search (row ! idx) = None \<Longrightarrow>
   process_row idx r1 r2 r3 row g = (Inr (Some row), g)"
  by (simp add: process_row_def)

lemma process_row_total:
  assumes "a1 \<le> b1" "a2 \<le> b2" "a3 \<le> b3"
  shows "\<exists>out g'. process_row idx [a1, b1] [a2, b2] [a3, b3] row g = (Inr out, g') \<and>
     (if length row \<le> idx then out = None
      else if re_search (row ! idx) = None then out = Some row
      else \<exists>d vs ve. out = Some (row @ [d, vs, ve]))"
proof (cases "length row \<le> idx")
  case True
  then show ?thesis using process_row_short [OF True] by simp
next
  case False
  then have i: "idx < length row" by simp
  show ?thesis
  proof (cases "re_search (row ! idx)")
    case None
    then show ?thesis using process_row_no_match [OF i None] False by simp
  next
    case (Some m)
    obtain k where "match_at (drop k (row ! idx)) = Some m"
      using re_search_first [OF Some] by blast
    then obtain cy where cy: "py_int (group1 m) = Some cy"
      using match_at_groups by blast
    from process_row_match [OF i Some cy assms refl refl refl, of g]
    obtain d vs ve where
      "process_row idx [a1, b1] [a2, b2] [a3, b3] row g =
         (Inr (Some (row @ [d, vs, ve])), \<lambda>n. g (n + 9))"
      by blast
    then show ?thesis using False Some by auto
  qed
qed

lemma process_rows_total:
  assumes "a1 \<le> b1" "a2 \<le> b2" "a3 \<le> b3"
  shows "\<exists>written g'.
     process_rows idx [a1, b1] [a2, b2] [a3, b3] data g = ((written, None), g') \<and>
     list_all2
       (\<lambda>row out. if re_search (row ! idx) = None then out = row
                   else \<exists>d vs ve. out = row @ [d, vs, ve])
       (filter (\<lambda>row. idx < length row) data) written"
proof (induction data arbitrary: g)
  case Nil
  show ?case by simp
next
  case (Cons row data)
  from process_row_total [OF assms, of idx row g] obtain out g1 where
    r: "process_row idx [a1, b1] [a2, b2] [a3, b3] row g = (Inr out, g1)"
    and o: "if length row \<le> idx then out = None
            else if re_search (row ! idx) = None then out = Some row
            else \<exists>d vs ve. out = Some (row @ [d, vs, ve])"
    by blast
  from Cons.IH [of g1] obtain written g2 where
    rs: "process_rows idx [a1, b1] [a2, b2] [a3, b3] data g1 = ((written, None), g2)"
    and l: "list_all2
       (\<lambda>row out. if re_search (row ! idx) = None then out = row
                   else \<exists>d vs ve. out = row @ [d, vs, ve])
       (filter (\<lambda>row. idx < length row) data) written"
    by blast
  have eq: "process_rows idx [a1, b1] [a2, b2] [a3, b3] (row # data) g =
      (((case out of None \<Rightarrow> [] | Some r \<Rightarrow> [r]) @ written, None), g2)"
    by (simp add: r rs)
  show ?case
  proof (cases "length row \<le> idx")
    case True
    then have "out = None" using o by simp
    then show ?thesis using eq l True by auto
  next
    case False
    show ?thesis
    proof (cases "re_search (row ! idx) = None")
      case True
      then have "out = Some row" using o False by simp
      then show ?thesis using eq l False True by auto
    next
      case nm: False
      then obtain d vs ve where "out = Some (row @ [d, vs, ve])" using o False by auto
      then show ?thesis using eq l False nm by auto
    qed
  qed
qed

lemma files_print [simp]: "files (print s w) = files w"
  by (simp add: print_def)

lemma dirs_print [simp]: "dirs (print s w) = dirs w"
  by (simp add: print_def)

lemma resolve_print [simp]: "resolve (print s w) = resolve w"
  by (simp add: print_def)

lemma files_print_error [simp]: "files (print_error f e w) = files w"
  by (simp add: print_error_def)

lemma dirs_print_error [simp]: "dirs (print_error f e w) = dirs w"
  by (simp add: print_error_def)

lemma resolve_print_error [simp]: "resolve (print_error f e w) = resolve w"
  by (simp add: print_error_def)

lemma resolve_write_file [simp]: "resolve (write_file p rows w) = resolve w"
  by (simp add: write_file_def)

lemma files_write_file: "files (write_file p rows w) (resolve w p) = Some rows"
  by (simp add: write_file_def)

lemma basename_nonempty: "basename p \<noteq> [] \<Longrightarrow> p \<noteq> []"
  by (auto simp: basename_def)

lemma read_file_written:
  "can_write p w \<Longrightarrow> read_file p (print s (write_file p rows w)) = Some rows"
  using basename_nonempty [of p] by (simp add: read_file_def can_write_def files_write_file)

text \<open>
  C3 (amended). With ranges that have \<open>min \<le> max\<close>, and an output path that names another
  file than the input file: the output file is the extended header followed by exactly one
  output row for each input row that has a field at the creation-date index, in the order
  of the input, namely the row itself, unchanged and with its original field count, when its
  creation-date field does not match the pattern, and the row with three more fields when
  it does. An input row that has no field at the creation-date index is not written.
\<close>

theorem output_rows_per_input_row:
  assumes "read_file input_file w = Some (header # data)"
    and "index_of ''creationDate'' header = Some creation_date_index"
    and "can_write (path_join output_directory (basename input_file)) w"
    and "resolve w (path_join output_directory (basename input_file)) \<noteq> resolve w input_file"
    and "a1 \<le> b1" and "a2 \<le> b2" and "a3 \<le> b3"
  shows "\<exists>written g'.
     process_csv_file input_file output_directory [a1, b1] [a2, b2] [a3, b3] (w, g) =
       (print (''Processed: '' @ input_file @ '' -> '' @
               path_join output_directory (basename input_file))
          (write_file (path_join output_directory (basename input_file))
             ((header @ [''deletionDate'', ''validStart'', ''validEnd'']) # written) w),
        g') \<and>
     read_file (path_join output_directory (basename input_file))
         (fst (process_csv_file input_file output_directory [a1, b1] [a2, b2] [a3, b3]
                 (w, g))) =
       Some ((header @ [''deletionDate'', ''validStart'', ''validEnd'']) # written) \<and>
     list_all2
       (\<lambda>row out. if re_search (row ! creation_date_index) = None then out = row
                   else \<exists>d vs ve. out = row @ [d, vs, ve])
       (filter (\<lambda>row. creation_date_index < length row) data) written"
proof -
  let ?out = "path_join output_directory (basename input_file)"
  from process_rows_total [OF assms(5-7), of creation_date_index data g]
  obtain written g' where
    rs: "process_rows creation_date_index [a1, b1] [a2, b2] [a3, b3] data g =
           ((written, None), g')"
    and l: "list_all2
       (\<lambda>row out. if re_search (row ! creation_date_index) = None then out = row
                   else \<exists>d vs ve. out = row @ [d, vs, ve])
       (filter (\<lambda>row. creation_date_index < length row) data) written"
    by blast
  have p: "process_csv_file input_file output_directory [a1, b1] [a2, b2] [a3, b3] (w, g) =
       (print (''Processed: '' @ input_file @ '' -> '' @ ?out)
          (write_file ?out
             ((header @ [''deletionDate'', ''validStart'', ''validEnd'']) # written) w),
        g')"
    unfolding process_csv_file_def by (simp add: assms(1-4) rs Let_def)
  have "read_file ?out
         (fst (process_csv_file input_file output_directory [a1, b1] [a2, b2] [a3, b3]
                 (w, g))) =
       Some ((header @ [''deletionDate'', ''validStart'', ''validEnd'']) # written)"
    by (simp add: p read_file_written [OF assms(3)])
  with p l show ?thesis by blast
qed

lemma short_row_output:
  "process_csv_file ''in.csv'' ''out'' [5, 10] [3, 5] [2, 7] (short_row_world, \<lambda>n. 0) =
     (print ''Processed: in.csv -> out/in.csv''
        (write_file ''out/in.csv''
           [[''id'', ''creationDate'', ''deletionDate'', ''validStart'', ''validEnd''],
            [''U1'', ''n/a'']] short_row_world),
      \<lambda>n. 0)"
  by (simp add: process_csv_file_def short_row_world_def read_file_def can_write_def
      is_dir_def parent_of_def split_name_def path_split_def rstrip_slashes_def path_join_def
      basename_def process_row_def match_at_def pattern_def time_atoms_def is_digit_def Let_def)

lemma short_row_can_write: "can_write ''out/in.csv'' short_row_world"
  by (simp add: can_write_def is_dir_def parent_of_def split_name_def path_split_def
      rstrip_slashes_def basename_def short_row_world_def Let_def)

theorem output_rows_per_input_row_counterexample:
  "read_file ''in.csv'' short_row_world =
     Some [[''id'', ''creationDate''], [''U1'', ''n/a''], [''U2'']] \<and>
   read_file ''out/in.csv''
     (fst (process_csv_file ''in.csv'' ''out'' [5, 10] [3, 5] [2, 7]
             (short_row_world, \<lambda>n. 0))) =
     Some [[''id'', ''creationDate'', ''deletionDate'', ''validStart'', ''validEnd''],
           [''U1'', ''n/a'']]"
  by (simp add: short_row_output read_file_written [OF short_row_can_write])
    (simp add: short_row_world_def read_file_def)

theorem output_rows_per_input_row_witness:
  "\<exists>written g'.
     process_csv_file ''in.csv'' ''out'' [5, 10] [3, 5] [2, 7] (short_row_world, \<lambda>n. 0) =
       (print (''Processed: '' @ ''in.csv'' @ '' -> '' @ path_join ''out'' (basename ''in.csv''))
          (write_file (path_join ''out'' (basename ''in.csv''))
             (([''id'', ''creationDate''] @ [''deletionDate'', ''validStart'', ''validEnd'']) #
              written) short_row_world),
        g') \<and>
     read_file (path_join ''out'' (basename ''in.csv''))
         (fst (process_csv_file ''in.csv'' ''out'' [5, 10] [3, 5] [2, 7]
                 (short_row_world, \<lambda>n. 0))) =
       Some (([''id'', ''creationDate''] @ [''deletionDate'', ''validStart'', ''validEnd'']) #
             written) \<and>
     list_all2
       (\<lambda>row out. if re_search (row ! 1) = None then out = row
                   else \<exists>d vs ve. out = row @ [d, vs, ve])
       (filter (\<lambda>row. 1 < length row) [[''U1'', ''n/a''], [''U2'']]) written"
proof -
  have f: "read_file ''in.csv'' short_row_world =
      Some ([''id'', ''creationDate''] # [[''U1'', ''n/a''], [''U2'']])"
    by (simp add: short_row_world_def read_file_def)
  have i: "index_of ''creationDate'' [''id'', ''creationDate''] = Some 1" by simp
  have o: "path_join ''out'' (basename ''in.csv'') = ''out/in.csv''"
    by (simp add: path_join_def basename_def)
  have c: "can_write (path_join ''out'' (basename ''in.csv'')) short_row_world"
    unfolding o by (rule short_row_can_write)
  have r: "resolve short_row_world (path_join ''out'' (basename ''in.csv'')) \<noteq>
      resolve short_row_world ''in.csv''"
    unfolding o by (simp add: short_row_world_def)
  show ?thesis
    by (rule output_rows_per_input_row [OF f i c r]) simp_all
qed

text \<open>
  When the output path names the input file, the rows written are those of the rows the
  reader still yields after the file was truncated under it.
\<close>

lemma output_over_input:
  assumes "read_file input_file w = Some (header # data)"
    and "index_of ''creationDate'' header = Some creation_date_index"
    and "can_write (path_join output_directory (basename input_file)) w"
    and "resolve w (path_join output_directory (basename input_file)) = resolve w input_file"
  shows "files (fst (process_csv_file input_file output_directory r1 r2 r3 (w, g)))
       (resolve w input_file) =
     Some ((header @ [''deletionDate'', ''validStart'', ''validEnd'']) #
           fst (fst (process_rows creation_date_index r1 r2 r3
                       (fst (reread w input_file data)) g)))"
proof -
  obtain rows read_error where rr: "reread w input_file data = (rows, read_error)"
    by (cases "reread w input_file data")
  obtain written err g1 where
    rs: "process_rows creation_date_index r1 r2 r3 rows g = ((written, err), g1)"
    by (metis surj_pair)
  show ?thesis
    unfolding process_csv_file_def
    using files_write_file [of "path_join output_directory (basename input_file)" _ w]
    by (simp add: assms rr rs Let_def split: option.splits)
qed

section \<open>A file without the creationDate column\<close>

lemma index_of_None: "index_of x xs = None \<longleftrightarrow> x \<notin> set xs"
  by (induction xs) auto

text \<open>
  C5. When the header row of a file has no field equal to \<open>creationDate\<close>,
  \<open>process_csv_file\<close> returns before the output file is opened: no file and no directory
  changes, the generator is untouched, and the only effect is the diagnostic line that names
  the file. In the loop of \<open>process_directory\<close> the remaining files are then processed from
  that state.
\<close>

theorem missing_column_skips_file:
  assumes "read_file input_file w = Some (header # data)"
    and "''creationDate'' \<notin> set header"
    and "input_file = path_join input_directory f"
  shows "process_csv_file input_file output_directory r1 r2 r3 (w, g) =
       (print (''Skipping '' @ quoted input_file @ '' (No '' @ quoted ''creationDate'' @
               '' column found)'') w, g) \<and>
     files (fst (process_csv_file input_file output_directory r1 r2 r3 (w, g))) = files w \<and>
     dirs (fst (process_csv_file input_file output_directory r1 r2 r3 (w, g))) = dirs w \<and>
     process_files input_directory output_directory r1 r2 r3 (f # csv_files) (w, g) =
       process_files input_directory output_directory r1 r2 r3 csv_files
         (print (''Skipping '' @ quoted input_file @ '' (No '' @ quoted ''creationDate'' @
                 '' column found)'') w, g)"
proof -
  have i: "index_of ''creationDate'' header = None"
    using assms(2) by (simp add: index_of_None)
  have p: "process_csv_file input_file output_directory r1 r2 r3 (w, g) =
       (print (''Skipping '' @ quoted input_file @ '' (No '' @ quoted ''creationDate'' @
               '' column found)'') w, g)"
    unfolding process_csv_file_def by (simp add: assms(1) i)
  then show ?thesis using assms(3) by simp
qed

lemma makedirs_out_exists: "makedirs ''out'' two_files_world = (None, two_files_world)"
  by (simp add: makedirs.simps [of "''out''"] mkdir_exist_ok_def mkdir_def path_exists_def
      is_dir_def split_name_def path_split_def rstrip_slashes_def basename_def
      two_files_world_def Let_def)

lemma two_files_directory:
  "process_directory ''in'' ''out'' [5, 5] [3, 3] [2, 2] (two_files_world, \<lambda>n. 0) =
     (None,
      print (''Skipping '' @ quoted ''in/b.csv'' @ '' (No '' @ quoted ''creationDate'' @
             '' column found)'')
        (print ''Processed: in/a.csv -> out/a.csv''
           (write_file ''out/a.csv''
              [[''id'', ''creationDate'', ''deletionDate'', ''validStart'', ''validEnd''],
               [''U1'', ''2020-05-17T10:15:30.000+0000'', ''2025-01-01T10:15:30.000+0000'',
                ''2023-01-01T10:15:30.000+0000'', ''2025-01-01T10:15:30.000+0000'']]
              (print (''Processing 2 CSV files in '' @ quoted ''in'' @ ''...'')
                 two_files_world))),
      \<lambda>n. 0)"
  unfolding process_directory_def
  by (simp add: makedirs_out_exists)
    (simp add: listdir_def two_files_world_def endswith_def
      process_csv_file_def read_file_def can_write_def is_dir_def parent_of_def split_name_def
      path_split_def rstrip_slashes_def path_join_def basename_def print_def write_file_def
      quoted_def
      process_row_def match_at_def pattern_def time_atoms_def is_digit_def
      randint_star_def randint_def generate_dates_def py_int_def strip_def is_space_def
      digits_value_def digit_val_def generate_random_date_def is_leap_year_def monthrange_days_def
      mdays_def isleap_def date_text_def str_int_def fmt02d_def show_nat.simps Let_def)

theorem missing_column_skips_file_witness:
  "process_csv_file ''in/b.csv'' ''out'' [5, 5] [3, 3] [2, 2] (two_files_world, \<lambda>n. 0) =
     (print (''Skipping '' @ quoted ''in/b.csv'' @ '' (No '' @ quoted ''creationDate'' @
             '' column found)'') two_files_world, \<lambda>n. 0) \<and>
   files (fst (process_csv_file ''in/b.csv'' ''out'' [5, 5] [3, 3] [2, 2]
                 (two_files_world, \<lambda>n. 0))) = files two_files_world \<and>
   process_files ''in'' ''out'' [5, 5] [3, 3] [2, 2] [''b.csv'', ''a.csv'']
       (two_files_world, \<lambda>n. 0) =
     process_files ''in'' ''out'' [5, 5] [3, 3] [2, 2] [''a.csv'']
       (print (''Skipping '' @ quoted ''in/b.csv'' @ '' (No '' @ quoted ''creationDate'' @
               '' column found)'') two_files_world, \<lambda>n. 0) \<and>
   fst (process_directory ''in'' ''out'' [5, 5] [3, 3] [2, 2] (two_files_world, \<lambda>n. 0)) = None \<and>
   files (fst (snd (process_directory ''in'' ''out'' [5, 5] [3, 3] [2, 2]
                      (two_files_world, \<lambda>n. 0)))) ''out/b.csv'' = None \<and>
   files (fst (snd (process_directory ''in'' ''out'' [5, 5] [3, 3] [2, 2]
                      (two_files_world, \<lambda>n. 0)))) ''out/a.csv'' =
     Some [[''id'', ''creationDate'', ''deletionDate'', ''validStart'', ''validEnd''],
           [''U1'', ''2020-05-17T10:15:30.000+0000'', ''2025-01-01T10:15:30.000+0000'',
            ''2023-01-01T10:15:30.000+0000'', ''2025-01-01T10:15:30.000+0000'']]"
proof -
  have f: "read_file ''in/b.csv'' two_files_world =
      Some ([''id'', ''other''] # [[''1'', ''2'']])"
    by (simp add: two_files_world_def read_file_def)
  have h: "''creationDate'' \<notin> set [''id'', ''other'']" by simp
  have p: "''in/b.csv'' = path_join ''in'' ''b.csv''" by (simp add: path_join_def)
  have d: "files (fst (snd (process_directory ''in'' ''out'' [5, 5] [3, 3] [2, 2]
                      (two_files_world, \<lambda>n. 0)))) ''out/b.csv'' = None"
    "files (fst (snd (process_directory ''in'' ''out'' [5, 5] [3, 3] [2, 2]
                      (two_files_world, \<lambda>n. 0)))) ''out/a.csv'' =
     Some [[''id'', ''creationDate'', ''deletionDate'', ''validStart'', ''validEnd''],
           [''U1'', ''2020-05-17T10:15:30.000+0000'', ''2025-01-01T10:15:30.000+0000'',
            ''2023-01-01T10:15:30.000+0000'', ''2025-01-01T10:15:30.000+0000'']]"
    "fst (process_directory ''in'' ''out'' [5, 5] [3, 3] [2, 2] (two_files_world, \<lambda>n. 0)) = None"
    by (simp_all add: two_files_directory write_file_def print_def)
      (simp_all add: two_files_world_def)
  show ?thesis
    using missing_column_skips_file [OF f h p, of "''out''" "[5, 5]" "[3, 3]" "[2, 2]" "\<lambda>n. 0"
        "[''a.csv'']"] d
    by simp
qed

section \<open>Ranges typed at the prompt, and the two path flags\<close>

text \<open>
  C7. \<open>get_range_input\<close> at the input \<open>7\<close>, which is not of the form \<open>min,max\<close>: the
  result is the one-element tuple \<open>(7,)\<close>, neither a pair nor the default \<open>(5, 10)\<close>, and no
  message is printed. \<open>parse_range\<close> rejects the same text, and
  \<open>random.randint(*(7,))\<close> raises \<open>TypeError\<close> at the first matching row.
\<close>

theorem get_range_input_single_number:
  "get_range_input ''Enter random deletion years range <min,max>: '' [5, 10]
       (short_row_world\<lparr>stdin := [''7'']\<rparr>) =
     (Inr [7],
      short_row_world
        \<lparr>stdout := [Prompt ''Enter random deletion years range <min,max>: ''],
           stdin := []\<rparr>) \<and>
   parse_range ''7'' = Inl ArgumentTypeError \<and>
   randint_star [7] g = (Inl TypeError, g)"
  by (simp add: get_range_input_def input_line_def strip_def is_space_def py_int_def
      is_digit_def digits_value_def digit_val_def parse_range_def randint_star_def
      short_row_world_def)

text \<open>
  C6. The command line \<open>--directory=in --file=in/a.csv --output out --dyr 5,5 --vsr 3,3
  --ver 2,2\<close> supplies both a directory and a file; argparse passes \<open>input_path = in\<close> and
  \<open>is_directory = True\<close>. No element of \<open>sys.argv\<close> is one of the four spellings \<open>main\<close> looks
  for, so \<open>main\<close> processes the directory, writes \<open>out/a.csv\<close> and returns: the exit status
  is 0.
\<close>

theorem both_flags_joined_with_equals:
  "fst (main [''convert_dataset.py'', ''--directory=in'', ''--file=in/a.csv'', ''--output'',
              ''out'', ''--dyr'', ''5,5'', ''--vsr'', ''3,3'', ''--ver'', ''2,2'']
          ''in'' ''out'' True [5, 5] [3, 3] [2, 2] (two_files_world, \<lambda>n. 0)) = Returned \<and>
   exit_status
     (fst (main [''convert_dataset.py'', ''--directory=in'', ''--file=in/a.csv'', ''--output'',
                 ''out'', ''--dyr'', ''5,5'', ''--vsr'', ''3,3'', ''--ver'', ''2,2'']
             ''in'' ''out'' True [5, 5] [3, 3] [2, 2] (two_files_world, \<lambda>n. 0))) = 0 \<and>
   files
     (fst (snd (main [''convert_dataset.py'', ''--directory=in'', ''--file=in/a.csv'',
                      ''--output'', ''out'', ''--dyr'', ''5,5'', ''--vsr'', ''3,3'', ''--ver'',
                      ''2,2'']
                  ''in'' ''out'' True [5, 5] [3, 3] [2, 2] (two_files_world, \<lambda>n. 0))))
     ''out/a.csv'' =
     Some [[''id'', ''creationDate'', ''deletionDate'', ''validStart'', ''validEnd''],
           [''U1'', ''2020-05-17T10:15:30.000+0000'', ''2025-01-01T10:15:30.000+0000'',
            ''2023-01-01T10:15:30.000+0000'', ''2025-01-01T10:15:30.000+0000'']]"
proof -
  have "main [''convert_dataset.py'', ''--directory=in'', ''--file=in/a.csv'', ''--output'',
              ''out'', ''--dyr'', ''5,5'', ''--vsr'', ''3,3'', ''--ver'', ''2,2'']
          ''in'' ''out'' True [5, 5] [3, 3] [2, 2] (two_files_world, \<lambda>n. 0) =
     (Returned,
      print (''Skipping '' @ quoted ''in/b.csv'' @ '' (No '' @ quoted ''creationDate'' @
             '' column found)'')
        (print ''Processed: in/a.csv -> out/a.csv''
           (write_file ''out/a.csv''
              [[''id'', ''creationDate'', ''deletionDate'', ''validStart'', ''validEnd''],
               [''U1'', ''2020-05-17T10:15:30.000+0000'', ''2025-01-01T10:15:30.000+0000'',
                ''2023-01-01T10:15:30.000+0000'', ''2025-01-01T10:15:30.000+0000'']]
              (print (''Processing 2 CSV files in '' @ quoted ''in'' @ ''...'')
                 two_files_world))),
      \<lambda>n. 0)"
    by (simp add: main_def makedirs_out_exists main_dispatch_def two_files_directory)
  then show ?thesis
    by (simp add: write_file_def print_def) (simp add: two_files_world_def)
qed

section \<open>The output directory\<close>

lemma input_line_frame:
  "input_line p w = (r, w1) \<Longrightarrow>
   dirs w1 = dirs w \<and> files w1 = files w \<and> resolve w1 = resolve w"
  by (auto simp: input_line_def split: list.splits)

lemma get_range_input_frame:
  "get_range_input p d w = (r, w1) \<Longrightarrow>
   dirs w1 = dirs w \<and> files w1 = files w \<and> resolve w1 = resolve w"
  unfolding get_range_input_def Let_def
  by (auto split: prod.splits sum.splits error.splits if_splits dest!: input_line_frame)

lemma main_ranges_frame:
  "main_ranges input_path is_directory r1 r2 r3 w = (res, w1) \<Longrightarrow>
   dirs w1 = dirs w \<and> files w1 = files w \<and> resolve w1 = resolve w"
  unfolding main_ranges_def Let_def
  by (auto split: if_splits prod.splits sum.splits
      dest!: input_line_frame get_range_input_frame)

lemma main_prompts_frame:
  "main_prompts r1 r2 r3 w = (res, w1) \<Longrightarrow>
   dirs w1 = dirs w \<and> files w1 = files w \<and> resolve w1 = resolve w"
  unfolding main_prompts_def Let_def
  by (auto split: if_splits prod.splits sum.splits
      dest!: input_line_frame main_ranges_frame)

lemma keeps_dirs_refl [simp]: "keeps_dirs w w"
  by (simp add: keeps_dirs_def)

lemma keeps_dirs_trans: "keeps_dirs w w1 \<Longrightarrow> keeps_dirs w1 w2 \<Longrightarrow> keeps_dirs w w2"
  by (auto simp: keeps_dirs_def)

lemma keeps_dirs_is_dir: "keeps_dirs w w1 \<Longrightarrow> is_dir p w \<Longrightarrow> is_dir p w1"
  by (auto simp: keeps_dirs_def is_dir_def)

lemma keeps_dirs_print [simp]: "keeps_dirs w (print s w1) = keeps_dirs w w1"
  by (simp add: keeps_dirs_def)

lemma keeps_dirs_print_error [simp]: "keeps_dirs w (print_error f e w1) = keeps_dirs w w1"
  by (simp add: keeps_dirs_def)

lemma mkdir_keeps:
  "mkdir name w = (e, w1) \<Longrightarrow> keeps_dirs w w1 \<and> files w1 = files w"
  by (auto simp: mkdir_def keeps_dirs_def split: if_splits)

lemma mkdir_exist_ok_keeps:
  "mkdir_exist_ok name w = (e, w1) \<Longrightarrow> keeps_dirs w w1 \<and> files w1 = files w"
  unfolding mkdir_exist_ok_def
  by (auto split: prod.splits option.splits if_splits dest!: mkdir_keeps)

lemma mkdir_exist_ok_is_dir:
  assumes "mkdir_exist_ok name w = (None, w1)"
  shows "is_dir name w1"
proof (cases "mkdir name w")
  case (Pair e w2)
  show ?thesis
  proof (cases e)
    case None
    then have "name \<noteq> []" and
      "w1 = w\<lparr>dirs :=
             ((dirs w)
                (resolve w (parent_of name) \<mapsto>
                   (case dirs w (resolve w (parent_of name)) of
                      None \<Rightarrow> []
                    | Some names \<Rightarrow> names) @ [snd (split_name name)]))
             (resolve w name \<mapsto> [])\<rparr>"
      using Pair assms by (auto simp: mkdir_exist_ok_def mkdir_def split: if_splits)
    then show ?thesis by (simp add: is_dir_def)
  next
    case (Some err)
    then show ?thesis using Pair assms
      by (auto simp: mkdir_exist_ok_def split: if_splits)
  qed
qed

lemma makedirs_keeps:
  "makedirs name w = (e, w1) \<Longrightarrow> keeps_dirs w w1 \<and> files w1 = files w"
proof (induction name w arbitrary: e w1 rule: makedirs.induct)
  case (1 name w)
  show ?case
  proof (cases "fst (split_name name) \<noteq> [] \<and> snd (split_name name) \<noteq> [] \<and>
         \<not> path_exists (fst (split_name name)) w")
    case False
    have "makedirs name w = mkdir_exist_ok name w"
      by (subst makedirs.simps) (use False in \<open>simp only: if_False\<close>)
    then have "mkdir_exist_ok name w = (e, w1)" using "1.prems" by simp
    then show ?thesis by (rule mkdir_exist_ok_keeps)
  next
    case True
    obtain e0 w0 where r: "makedirs (fst (split_name name)) w = (e0, w0)"
      by (cases "makedirs (fst (split_name name)) w")
    from "1.IH" [OF True r] have k0: "keeps_dirs w w0" "files w0 = files w" by simp_all
    have "(e, w1) = (e0, w0) \<or> (e, w1) = (None, w0) \<or> mkdir_exist_ok name w0 = (e, w1)"
      using "1.prems" True r
      by (auto simp: makedirs.simps [of name w] split: option.splits error.splits if_splits)
    then show ?thesis
    proof (elim disjE)
      assume "(e, w1) = (e0, w0)"
      then show ?thesis using k0 by simp
    next
      assume "(e, w1) = (None, w0)"
      then show ?thesis using k0 by simp
    next
      assume "mkdir_exist_ok name w0 = (e, w1)"
      from mkdir_exist_ok_keeps [OF this] show ?thesis
        using k0 keeps_dirs_trans by auto
    qed
  qed
qed

lemma makedirs_is_dir:
  assumes "makedirs name w = (None, w1)" and "snd (split_name name) \<noteq> ''.''"
  shows "is_dir name w1"
proof -
  have "\<exists>w0. mkdir_exist_ok name w0 = (None, w1)"
    using assms
    by (auto simp: makedirs.simps [of name w]
        split: option.splits error.splits if_splits prod.splits)
  then show ?thesis using mkdir_exist_ok_is_dir by blast
qed

lemma write_file_keeps [simp]: "keeps_dirs w (write_file p rows w)"
  by (auto simp: keeps_dirs_def write_file_def split: option.splits)

lemma process_csv_file_keeps:
  "keeps_dirs (fst s) (fst (process_csv_file input_file output_directory r1 r2 r3 s))"
proof -
  obtain w g where s: "s = (w, g)" by (cases s)
  show ?thesis
    unfolding s process_csv_file_def Let_def
    by (simp split: option.splits list.splits prod.splits)
qed

lemma process_files_keeps:
  "keeps_dirs (fst s)
     (fst (process_files input_directory output_directory r1 r2 r3 csv_files s))"
proof (induction csv_files arbitrary: s)
  case Nil
  show ?case by simp
next
  case (Cons f csv_files)
  show ?case
    using keeps_dirs_trans
      [OF process_csv_file_keeps
        [of s "path_join input_directory f" output_directory r1 r2 r3]
        Cons.IH
        [of "process_csv_file (path_join input_directory f) output_directory r1 r2 r3 s"]]
    by simp
qed

lemma process_directory_keeps:
  "keeps_dirs (fst s)
     (fst (snd (process_directory input_directory output_directory r1 r2 r3 s)))"
proof -
  obtain w g where s: "s = (w, g)" by (cases s)
  obtain e w1 where m: "makedirs output_directory w = (e, w1)"
    by (cases "makedirs output_directory w")
  have k1: "keeps_dirs w w1" using makedirs_keeps [OF m] by simp
  show ?thesis
  proof (cases e)
    case (Some err)
    then show ?thesis using k1 by (simp add: process_directory_def s m)
  next
    case None
    show ?thesis
    proof (cases "listdir input_directory w1")
      case n: None
      then show ?thesis using k1 None by (simp add: process_directory_def s m)
    next
      case (Some names)
      have "keeps_dirs w1
          (fst (process_files input_directory output_directory r1 r2 r3
                  (filter (\<lambda>f. endswith f ''.csv'') names)
                  (print (''Processing '' @
                          str_int (int (length (filter (\<lambda>f. endswith f ''.csv'') names))) @
                          '' CSV files in '' @ quoted input_directory @ ''...'') w1, g)))"
        using process_files_keeps
          [of "(print (''Processing '' @
                       str_int (int (length (filter (\<lambda>f. endswith f ''.csv'') names))) @
                       '' CSV files in '' @ quoted input_directory @ ''...'') w1, g)"
            input_directory output_directory r1 r2 r3
            "filter (\<lambda>f. endswith f ''.csv'') names"]
        by (simp add: keeps_dirs_def)
      then have "keeps_dirs w
          (fst (process_files input_directory output_directory r1 r2 r3
                  (filter (\<lambda>f. endswith f ''.csv'') names)
                  (print (''Processing '' @
                          str_int (int (length (filter (\<lambda>f. endswith f ''.csv'') names))) @
                          '' CSV files in '' @ quoted input_directory @ ''...'') w1, g)))"
        using k1 keeps_dirs_trans by blast
      then show ?thesis using k1 None Some
        by (simp add: process_directory_def s m Let_def)
    qed
  qed
qed

lemma main_dispatch_keeps:
  "keeps_dirs (fst s)
     (fst (snd (main_dispatch input_path output_directory is_directory r1 r2 r3 s)))"
proof (cases is_directory)
  case True
  obtain e s1 where p: "process_directory input_path output_directory r1 r2 r3 s = (e, s1)"
    by (cases "process_directory input_path output_directory r1 r2 r3 s")
  then have "keeps_dirs (fst s) (fst s1)"
    using process_directory_keeps [of s input_path output_directory r1 r2 r3] by simp
  then show ?thesis using True p by (simp add: main_dispatch_def split: option.splits)
next
  case False
  then show ?thesis
    using process_csv_file_keeps [of s input_path output_directory r1 r2 r3]
    by (simp add: main_dispatch_def)
qed

lemma main_after_makedirs:
  assumes "makedirs output_directory w = (None, w1)"
  shows "keeps_dirs w1
     (fst (snd (main argv input_path output_directory is_directory r1 r2 r3 (w, g))))"
proof -
  let ?both = "(''-d'' \<in> set argv \<or> ''--directory'' \<in> set argv) \<and>
      (''-f'' \<in> set argv \<or> ''--file'' \<in> set argv)"
  show ?thesis
  proof (cases ?both)
    case True
    then have "main argv input_path output_directory is_directory r1 r2 r3 (w, g) =
        (Exit 1,
         print ''Error: -d/--directory and -f/--file cannot be used simultaneously.'' w1, g)"
      by (simp add: main_def assms)
    then show ?thesis by simp
  next
    case False
    have e: "main argv input_path output_directory is_directory r1 r2 r3 (w, g) =
        (case (if input_path = [] then main_prompts r1 r2 r3 w1
               else (Inr (input_path, is_directory, r1, r2, r3), w1)) of
           (Inl out, w2) \<Rightarrow> (out, w2, g)
         | (Inr (ip, isd, q1, q2, q3), w2) \<Rightarrow>
             main_dispatch ip output_directory isd q1 q2 q3 (w2, g))"
      unfolding main_def Let_def
      using False by (simp only: assms if_False prod.case option.case)
    obtain res w2 where c:
      "(if input_path = [] then main_prompts r1 r2 r3 w1
        else (Inr (input_path, is_directory, r1, r2, r3), w1)) = (res, w2)"
      by (cases "if input_path = [] then main_prompts r1 r2 r3 w1
                 else (Inr (input_path, is_directory, r1, r2, r3), w1)")
    have "dirs w2 = dirs w1 \<and> resolve w2 = resolve w1"
    proof (cases "input_path = []")
      case True
      then show ?thesis using c main_prompts_frame [of r1 r2 r3 w1 res w2] by simp
    next
      case False
      then show ?thesis using c by simp
    qed
    then have k2: "keeps_dirs w1 w2" by (simp add: keeps_dirs_def)
    show ?thesis
    proof (cases res)
      case (Inl out)
      then show ?thesis using c k2 by (simp add: e)
    next
      case (Inr t)
      obtain ip isd q1 q2 q3 where t: "t = (ip, isd, q1, q2, q3)" by (cases t)
      have "main argv input_path output_directory is_directory r1 r2 r3 (w, g) =
          main_dispatch ip output_directory isd q1 q2 q3 (w2, g)"
        using c Inr t by (simp add: e)
      moreover have "keeps_dirs w2
          (fst (snd (main_dispatch ip output_directory isd q1 q2 q3 (w2, g))))"
        using main_dispatch_keeps [of "(w2, g)" ip output_directory isd q1 q2 q3] by simp
      ultimately show ?thesis using keeps_dirs_trans [OF k2] by simp
    qed
  qed
qed

text \<open>
  C10 (amended). \<open>main\<close> calls \<open>os.makedirs\<close> on the output path before it looks at the
  flags. When that call raises, \<open>main\<close> ends with the exception, whatever the flags are. In
  every call of \<open>main\<close> in which it does not raise, each directory that exists when it
  returns still exists when \<open>main\<close> ends, whatever the arguments and however the call ends.
  The output directory is among them when the last component of the output path is not
  \<open>.\<close>: \<open>os.makedirs\<close> then ends with \<open>mkdir\<close> on the path itself. In particular, when
  both a directory flag and a file flag are elements of \<open>sys.argv\<close>, \<open>main\<close> exits with
  status 1 after the directory was created, having printed the error line and written no
  file.
\<close>

theorem both_flags_exit_after_makedirs:
  assumes "makedirs output_directory w = (r, w1)"
  shows "(r = None \<longrightarrow>
       (\<forall>p. is_dir p w1 \<longrightarrow>
            is_dir p (fst (snd (main argv input_path output_directory is_directory r1 r2 r3
                                  (w, g))))) \<and>
       (snd (split_name output_directory) \<noteq> ''.'' \<longrightarrow>
          is_dir output_directory
            (fst (snd (main argv input_path output_directory is_directory r1 r2 r3
                         (w, g))))) \<and>
       ((''-d'' \<in> set argv \<or> ''--directory'' \<in> set argv) \<and>
        (''-f'' \<in> set argv \<or> ''--file'' \<in> set argv) \<longrightarrow>
        main argv input_path output_directory is_directory r1 r2 r3 (w, g) =
          (Exit 1,
           print ''Error: -d/--directory and -f/--file cannot be used simultaneously.'' w1,
           g) \<and>
        files (fst (snd (main argv input_path output_directory is_directory r1 r2 r3
                           (w, g)))) = files w)) \<and>
     (\<forall>e. r = Some e \<longrightarrow>
        main argv input_path output_directory is_directory r1 r2 r3 (w, g) =
          (Raised e, w1, g))"
proof (cases r)
  case (Some e)
  then show ?thesis using assms by (simp add: main_def)
next
  case None
  then have m: "makedirs output_directory w = (None, w1)" using assms by simp
  let ?final = "fst (snd (main argv input_path output_directory is_directory r1 r2 r3 (w, g)))"
  have k: "keeps_dirs w1 ?final" by (rule main_after_makedirs [OF m])
  have a: "\<forall>p. is_dir p w1 \<longrightarrow> is_dir p ?final"
    using keeps_dirs_is_dir [OF k] by blast
  have b: "snd (split_name output_directory) \<noteq> ''.'' \<longrightarrow> is_dir output_directory ?final"
    using makedirs_is_dir [OF m] a by blast
  have c: "(''-d'' \<in> set argv \<or> ''--directory'' \<in> set argv) \<and>
        (''-f'' \<in> set argv \<or> ''--file'' \<in> set argv) \<longrightarrow>
        main argv input_path output_directory is_directory r1 r2 r3 (w, g) =
          (Exit 1,
           print ''Error: -d/--directory and -f/--file cannot be used simultaneously.'' w1,
           g) \<and>
        files ?final = files w"
  proof
    assume both: "(''-d'' \<in> set argv \<or> ''--directory'' \<in> set argv) \<and>
        (''-f'' \<in> set argv \<or> ''--file'' \<in> set argv)"
    then have "main argv input_path output_directory is_directory r1 r2 r3 (w, g) =
        (Exit 1,
         print ''Error: -d/--directory and -f/--file cannot be used simultaneously.'' w1, g)"
      by (simp add: main_def m)
    then show "main argv input_path output_directory is_directory r1 r2 r3 (w, g) =
          (Exit 1,
           print ''Error: -d/--directory and -f/--file cannot be used simultaneously.'' w1,
           g) \<and>
        files ?final = files w"
      using makedirs_keeps [OF m] by simp
  qed
  show ?thesis using None a b c by blast
qed

lemma makedirs_over_file:
  "makedirs ''in.csv'' short_row_world = (Some FileExistsError, short_row_world)"
  by (simp add: makedirs.simps [of "''in.csv''"] mkdir_exist_ok_def mkdir_def path_exists_def
      is_dir_def is_file_def split_name_def path_split_def rstrip_slashes_def basename_def
      short_row_world_def Let_def)

theorem both_flags_exit_after_makedirs_counterexample:
  "main [''convert_dataset.py'', ''-d'', ''in'', ''-f'', ''in.csv'', ''-o'', ''in.csv'']
       ''in'' ''in.csv'' True [5, 10] [3, 5] [2, 7] (short_row_world, \<lambda>n. 0) =
     (Raised FileExistsError, short_row_world, \<lambda>n. 0) \<and>
   \<not> is_dir ''in.csv'' short_row_world"
  by (simp add: main_def makedirs_over_file) (simp add: is_dir_def short_row_world_def)

lemma makedirs_processed_csv:
  "makedirs ''processed_csv'' short_row_world =
     (None,
      short_row_world
        \<lparr>dirs := (dirs short_row_world)
           (''.'' \<mapsto> [''in.csv'', ''out'', ''processed_csv''], ''processed_csv'' \<mapsto> [])\<rparr>)"
  by (simp add: makedirs.simps [of "''processed_csv''"] mkdir_exist_ok_def mkdir_def
      path_exists_def is_dir_def is_file_def parent_of_def split_name_def path_split_def
      rstrip_slashes_def basename_def short_row_world_def Let_def)

theorem both_flags_exit_after_makedirs_witness:
  "\<not> is_dir ''processed_csv'' short_row_world \<and>
   is_dir ''processed_csv''
     (fst (snd (main [''convert_dataset.py'', ''-d'', ''in'', ''-f'', ''in.csv'']
                  ''in'' ''processed_csv'' True [5, 10] [3, 5] [2, 7]
                  (short_row_world, \<lambda>n. 0)))) \<and>
   main [''convert_dataset.py'', ''-d'', ''in'', ''-f'', ''in.csv'']
       ''in'' ''processed_csv'' True [5, 10] [3, 5] [2, 7] (short_row_world, \<lambda>n. 0) =
     (Exit 1,
      print ''Error: -d/--directory and -f/--file cannot be used simultaneously.''
        (short_row_world
           \<lparr>dirs := (dirs short_row_world)
              (''.'' \<mapsto> [''in.csv'', ''out'', ''processed_csv''], ''processed_csv'' \<mapsto> [])\<rparr>),
      \<lambda>n. 0) \<and>
   files (fst (snd (main [''convert_dataset.py'', ''-d'', ''in'', ''-f'', ''in.csv'']
                      ''in'' ''processed_csv'' True [5, 10] [3, 5] [2, 7]
                      (short_row_world, \<lambda>n. 0)))) = files short_row_world"
proof -
  have n: "\<not> is_dir ''processed_csv'' short_row_world"
    by (simp add: is_dir_def short_row_world_def)
  have t: "snd (split_name ''processed_csv'') \<noteq> ''.''"
    by (simp add: split_name_def path_split_def basename_def Let_def)
  have both:
    "(''-d'' \<in> set [''convert_dataset.py'', ''-d'', ''in'', ''-f'', ''in.csv''] \<or>
      ''--directory'' \<in> set [''convert_dataset.py'', ''-d'', ''in'', ''-f'', ''in.csv'']) \<and>
     (''-f'' \<in> set [''convert_dataset.py'', ''-d'', ''in'', ''-f'', ''in.csv''] \<or>
      ''--file'' \<in> set [''convert_dataset.py'', ''-d'', ''in'', ''-f'', ''in.csv''])"
    by simp
  show ?thesis
    using both_flags_exit_after_makedirs [OF makedirs_processed_csv,
        of "[''convert_dataset.py'', ''-d'', ''in'', ''-f'', ''in.csv'']" "''in''" True
          "[5, 10]" "[3, 5]" "[2, 7]" "\<lambda>n. 0"] n t both
    by blast
qed

end
